theory Spec2Isabelle
  imports Main "HOL-Library.AList" "HOL-Library.Multiset" "HOL-Library.Word"
begin

section \<open>The SQL Server input plugin: data model\<close>

text \<open>
  The diagnostic query texts of \<^verbatim>\<open>sqlserver.go\<close> are Go string constants of several
  hundred lines each. The plugin never inspects them: it stores one in \<^verbatim>\<open>Query.Script\<close>
  and hands it to the driver. Each constant is therefore one constructor of the type
  \<open>script\<close>, named as the Go constant is.
\<close>

datatype script =
    sqlAzureDBResourceStats | sqlAzureDBResourceGovernance
  | sqlPerformanceCountersV2 | sqlWaitStatsCategorizedV2 | sqlDatabaseIOV2
  | sqlServerPropertiesV2 | sqlMemoryClerkV2 | sqlServerSchedulersV2
  | sqlServerRequestsV2 | sqlServerVolumeSpaceV2 | sqlServerCpuV2 | alwaysOnHealthV2
  | sqlCachedPlansV2 | sqlInstanceWaitsV2 | sqlPageLifeExpectancyV2 | sqlLogUsageV2
  | sqlDatabasesByInstanceV2 | sqlDatabasesOnAGV2 | sqlJobRunsV2
  | sqlDatabasePropertiesV2 | sqlBackupsV2 | sqlOrphanedUsersV2 | sqlUsersSysadminV2
  | sqlLockedUsersV2 | sqlPolicyCheckedV2 | sqlDiskUsageV2
  | sqlPerformanceCounters | sqlWaitStatsCategorized | sqlCPUHistory | sqlDatabaseIO
  | sqlDatabaseSize | sqlDatabaseStats | sqlDatabaseProperties | sqlMemoryClerk
  | sqlVolumeSpace | sqlPerformanceMetrics

text \<open>\<^verbatim>\<open>type Query struct { Script string; OrderedColumns []string }\<close>\<close>

record Query =
  Script :: script
  OrderedColumns :: "string list"

text \<open>
  \<^verbatim>\<open>type MapQuery map[string]Query\<close>. \<^verbatim>\<open>Gather\<close> ranges over this map, so it is
  an association list with unique keys, written with \<open>AList.update\<close> (the Go assignment
  \<^verbatim>\<open>queries[name] = q\<close>) and read with \<open>map_of\<close>. The order of the list is one of
  the orders Go's map iteration may take.
\<close>

type_synonym MapQuery = "(string \<times> Query) list"

text \<open>
  \<^verbatim>\<open>type SQLServer struct\<close>. The three \<^verbatim>\<open>map[string]struct{}\<close> fields are sets of
  names; \<^verbatim>\<open>QueryVersion\<close> is a Go \<^verbatim>\<open>int\<close> that is only ever compared with 2.
\<close>

record SQLServer =
  Servers :: "string list"
  QueryVersion :: int
  AzureDB :: bool
  IncludeQuery :: "string list"
  ExcludeQuery :: "string list"
  LocalInstancesAutoDiscovery :: bool
  TagKeys :: "string list"
  includeQueries :: "string set"
  excludeQueries :: "string set"
  tags :: "string set"
  queries :: MapQuery
  isInitialized :: bool

section \<open>Query selection\<close>

definition initIncludeQueries :: "SQLServer \<Rightarrow> SQLServer" where
  "initIncludeQueries s =
     s\<lparr>includeQueries := fold (\<lambda>query m. insert query m) (IncludeQuery s) {}\<rparr>"

definition initExcludeQueries :: "SQLServer \<Rightarrow> SQLServer" where
  "initExcludeQueries s =
     s\<lparr>excludeQueries := fold (\<lambda>query m. insert query m) (ExcludeQuery s) {}\<rparr>"

definition initTags :: "SQLServer \<Rightarrow> SQLServer" where
  "initTags s = s\<lparr>tags := fold (\<lambda>query m. insert query m) (TagKeys s) {}\<rparr>"

text \<open>
  The closure \<^verbatim>\<open>filter\<close> of \<^verbatim>\<open>initQueries\<close>. The three assignments to
  \<^verbatim>\<open>shouldInclude\<close> are kept in the source's order: the exclude check assigns
  \<^verbatim>\<open>!ok\<close> whatever the include check found.
\<close>

definition filter_q :: "SQLServer \<Rightarrow> string \<Rightarrow> bool" where
  "filter_q s queryMetricName =
     (let shouldInclude = True;
          shouldInclude = (if includeQueries s \<noteq> {}
                           then queryMetricName \<in> includeQueries s else shouldInclude);
          shouldInclude = (if excludeQueries s \<noteq> {}
                           then \<not> (queryMetricName \<in> excludeQueries s) else shouldInclude)
      in shouldInclude)"

text \<open>
  One \<^verbatim>\<open>if filter(name) { queries[name] = Query{Script: text} }\<close> statement.
\<close>

definition put_query :: "SQLServer \<Rightarrow> string \<times> script \<Rightarrow> MapQuery \<Rightarrow> MapQuery" where
  "put_query s e qs =
     (if filter_q s (fst e)
      then AList.update (fst e) \<lparr>Script = snd e, OrderedColumns = []\<rparr> qs else qs)"

text \<open>The statements of the \<^verbatim>\<open>if s.AzureDB\<close> block, in order.\<close>

definition azure_entries :: "(string \<times> script) list" where
  "azure_entries =
     [(''AzureDBResourceStats'', sqlAzureDBResourceStats),
      (''AzureDBResourceGovernance'', sqlAzureDBResourceGovernance)]"

text \<open>The statements of the \<^verbatim>\<open>s.QueryVersion == 2\<close> branch, in order.\<close>

definition v2_entries :: "(string \<times> script) list" where
  "v2_entries =
     [(''PerformanceCounters'', sqlPerformanceCountersV2),
      (''WaitStatsCategorized'', sqlWaitStatsCategorizedV2),
      (''DatabaseIO'', sqlDatabaseIOV2),
      (''ServerProperties'', sqlServerPropertiesV2),
      (''MemoryClerk'', sqlMemoryClerkV2),
      (''Schedulers'', sqlServerSchedulersV2),
      (''SqlRequests'', sqlServerRequestsV2),
      (''VolumeSpace'', sqlServerVolumeSpaceV2),
      (''Cpu'', sqlServerCpuV2),
      (''AlwaysOnHealth'', alwaysOnHealthV2),
      (''CachedPlans'', sqlCachedPlansV2),
      (''InstanceWaits'', sqlInstanceWaitsV2),
      (''PageLifeExpectancy'', sqlPageLifeExpectancyV2),
      (''LogUsage'', sqlLogUsageV2),
      (''DatabasesByInstance'', sqlDatabasesByInstanceV2),
      (''DatabasesOnAG'', sqlDatabasesOnAGV2),
      (''JobRuns'', sqlJobRunsV2),
      (''DatabaseProperties'', sqlDatabasePropertiesV2),
      (''Backups'', sqlBackupsV2),
      (''OrphanedUsers'', sqlOrphanedUsersV2),
      (''UsersSysadmin'', sqlUsersSysadminV2),
      (''LockedUsers'', sqlLockedUsersV2),
      (''PolicyChecked'', sqlPolicyCheckedV2),
      (''DiskUsage'', sqlDiskUsageV2)]"

text \<open>The statements of the \<^verbatim>\<open>else\<close> branch, in order.\<close>

definition v1_entries :: "(string \<times> script) list" where
  "v1_entries =
     [(''PerformanceCounters'', sqlPerformanceCounters),
      (''WaitStatsCategorized'', sqlWaitStatsCategorized),
      (''CPUHistory'', sqlCPUHistory),
      (''DatabaseIO'', sqlDatabaseIO),
      (''DatabaseSize'', sqlDatabaseSize),
      (''DatabaseStats'', sqlDatabaseStats),
      (''DatabaseProperties'', sqlDatabaseProperties),
      (''MemoryClerk'', sqlMemoryClerk),
      (''VolumeSpace'', sqlVolumeSpace),
      (''PerformanceMetrics'', sqlPerformanceMetrics)]"

definition initQueries :: "SQLServer \<Rightarrow> SQLServer" where
  "initQueries s0 =
     (let s = initTags (initExcludeQueries (initIncludeQueries s0));
          qs = [];
          qs = (if AzureDB s then fold (put_query s) azure_entries qs else qs);
          qs = (if QueryVersion s = 2 then fold (put_query s) v2_entries qs
                else fold (put_query s) v1_entries qs)
      in s\<lparr>queries := qs, isInitialized := True\<rparr>)"

text \<open>
  The catalog a configuration offers: the extended entries when \<^verbatim>\<open>AzureDB\<close> is set,
  followed by the entries of the version the configuration names.
\<close>

definition catalog_of :: "bool \<Rightarrow> (string \<times> script) list \<Rightarrow> (string \<times> script) list" where
  "catalog_of azure es = (if azure then azure_entries else []) @ es"

definition bind_text :: "script \<Rightarrow> Query" where
  "bind_text sc = \<lparr>Script = sc, OrderedColumns = []\<rparr>"

text \<open>What the closure decides, in terms of the two configured lists.\<close>

definition selects :: "string list \<Rightarrow> string list \<Rightarrow> string \<Rightarrow> bool" where
  "selects incl excl n =
     (if excl \<noteq> [] then n \<notin> set excl else if incl \<noteq> [] then n \<in> set incl else True)"

section \<open>Row decoding\<close>

text \<open>
  A Go \<^verbatim>\<open>error\<close> value is \<open>error option\<close>: \<open>None\<close> is \<^verbatim>\<open>nil\<close>. The values the
  driver scans into an \<^verbatim>\<open>interface{}\<close> are those of \<^verbatim>\<open>database/sql/driver.Value\<close>:
  \<^verbatim>\<open>nil\<close>, \<^verbatim>\<open>int64\<close>, \<^verbatim>\<open>float64\<close> (its 64 bits), \<^verbatim>\<open>bool\<close>, \<^verbatim>\<open>[]byte\<close>,
  \<^verbatim>\<open>string\<close> and \<^verbatim>\<open>time.Time\<close> (an instant).
\<close>

datatype error = Err string

datatype val =
    VNil | VInt "64 word" | VFloat "64 word" | VBool bool | VBytes "8 word list"
  | VString string | VTime int

text \<open>
  A Go call either returns or panics. The two type assertions \<^verbatim>\<open>(*val).(string)\<close> of
  \<^verbatim>\<open>accRow\<close> are of the single-value form, which panics on a value of another type.
\<close>

datatype 'a outcome = Ret 'a | Panic

text \<open>
  The calls the plugin makes on its collaborators, in the order it makes them:
  \<^verbatim>\<open>sql.Open\<close> that succeeded, \<^verbatim>\<open>conn.Query\<close>, \<^verbatim>\<open>rows.Close\<close>, \<^verbatim>\<open>conn.Close\<close>,
  \<^verbatim>\<open>acc.AddFields(measurement, fields, tags, time.Now())\<close> (the wall-clock argument is
  left out) and \<^verbatim>\<open>acc.AddError(err)\<close>.
\<close>

datatype event =
    SqlOpen string
  | ConnQuery script
  | RowsClose
  | ConnClose string
  | AddFields string "string \<rightharpoonup> val" "string \<rightharpoonup> string"
  | AddError "error option"

text \<open>
  The cursor \<^verbatim>\<open>*sql.Rows\<close> of one query: what \<^verbatim>\<open>rows.Columns()\<close> returns, one entry
  for each time \<^verbatim>\<open>rows.Next()\<close> answers true (what \<^verbatim>\<open>row.Scan\<close> does there: it fails,
  or it delivers the driver's values of that row), and what \<^verbatim>\<open>rows.Err()\<close> returns
  once \<^verbatim>\<open>Next\<close> has answered false.
\<close>

type_synonym row = "error + val list"

datatype sql_Rows =
  Rows (Columns: "error + string list") (pending: "row list") (RowsErr: "error option")

text \<open>A connection \<^verbatim>\<open>*sql.DB\<close>: what \<^verbatim>\<open>conn.Query(text)\<close> returns.\<close>

datatype sql_DB = DB (conn_Query: "script \<Rightarrow> error + sql_Rows")

text \<open>
  \<^verbatim>\<open>row.Scan(columnVars...)\<close>: the cells are addressed by number, the store is the
  list of their contents. \<^verbatim>\<open>database/sql\<close> refuses a destination count that differs
  from the column count; otherwise the i-th value is written through the i-th pointer.
\<close>

definition Scan :: "row \<Rightarrow> nat list \<Rightarrow> val list \<Rightarrow> error + val list" where
  "Scan r dest store =
     (case r of
        Inl err \<Rightarrow> Inl err
      | Inr vs \<Rightarrow>
          if length dest \<noteq> length vs
          then Inl (Err ''sql: wrong number of destination arguments in Scan'')
          else Inr (fold (\<lambda>pv st. st[fst pv := snd pv]) (zip dest vs) store))"

text \<open>
  The first loop of \<^verbatim>\<open>accRow\<close>: \<^verbatim>\<open>columnMap[column] = new(interface{})\<close> allocates the
  next cell (its address is the number of cells allocated so far) and
  \<^verbatim>\<open>columnVars = append(columnVars, columnMap[column])\<close> records the pointer. A column
  name met twice keeps its later cell in \<^verbatim>\<open>columnMap\<close>; both cells stay in
  \<^verbatim>\<open>columnVars\<close>.
\<close>

definition bind_column ::
  "string \<Rightarrow> (string \<times> nat) list \<times> nat list \<Rightarrow> (string \<times> nat) list \<times> nat list" where
  "bind_column column cmv =
     (let columnMap = AList.update column (length (snd cmv)) (fst cmv)
      in (columnMap, snd cmv @ [length (snd cmv)]))"

text \<open>
  The second loop of \<^verbatim>\<open>accRow\<close>, \<^verbatim>\<open>for header, val := range columnMap\<close>, over the
  entries of the map. Every cell read was allocated by the first loop, and \<open>Scan\<close> has
  succeeded, so the address is within the store. \<open>as_string\<close> is the test the type
  assertion \<^verbatim>\<open>(*val).(string)\<close> makes; where it fails the assertion panics.
\<close>

fun as_string :: "val \<Rightarrow> string option" where
  "as_string (VString str) = Some str"
| "as_string v = None"

fun classify ::
  "string set \<Rightarrow> val list \<Rightarrow> (string \<times> nat) list
    \<Rightarrow> string \<times> (string \<rightharpoonup> string) \<times> (string \<rightharpoonup> val)
    \<Rightarrow> (string \<times> (string \<rightharpoonup> string) \<times> (string \<rightharpoonup> val)) outcome" where
  "classify tg store [] acc = Ret acc"
| "classify tg store ((header, p) # rest) (measurement, tgs, flds) =
     (if header = ''measurement'' then
        (case as_string (store ! p) of
           None \<Rightarrow> Panic
         | Some str \<Rightarrow> classify tg store rest (str, tgs, flds))
      else if header \<in> tg then
        (case as_string (store ! p) of
           None \<Rightarrow> Panic
         | Some str \<Rightarrow> classify tg store rest (measurement, tgs(header \<mapsto> str), flds))
      else classify tg store rest (measurement, tgs, flds(header \<mapsto> store ! p)))"

definition accRow :: "SQLServer \<Rightarrow> Query \<Rightarrow> row \<Rightarrow> event list \<times> error option outcome" where
  "accRow s query r =
     (let cmv = fold bind_column (OrderedColumns query) ([], []);
          columnMap = fst cmv;
          columnVars = snd cmv;
          store = replicate (length columnVars) VNil
      in case Scan r columnVars store of
           Inl err \<Rightarrow> ([], Ret (Some err))
         | Inr store \<Rightarrow>
             (case classify (tags s) store columnMap ([], Map.empty, Map.empty) of
                Panic \<Rightarrow> ([], Panic)
              | Ret (measurement, tgs, flds) \<Rightarrow>
                  ([AddFields measurement flds tgs], Ret None)))"

section \<open>The gather cycle\<close>

text \<open>
  \<^verbatim>\<open>for rows.Next() { err = s.accRow(query, acc, rows); if err != nil { return err } }\<close>
  followed by \<^verbatim>\<open>return rows.Err()\<close>.
\<close>

fun rows_loop ::
  "SQLServer \<Rightarrow> Query \<Rightarrow> row list \<Rightarrow> error option \<Rightarrow> event list \<times> error option outcome" where
  "rows_loop s query [] final = ([], Ret final)"
| "rows_loop s query (r # rs) final =
     (case accRow s query r of
        (evs, Ret None) \<Rightarrow>
          (let rest = rows_loop s query rs final in (evs @ fst rest, snd rest))
      | (evs, Ret (Some err)) \<Rightarrow> (evs, Ret (Some err))
      | (evs, Panic) \<Rightarrow> (evs, Panic))"

text \<open>
  \<^verbatim>\<open>gatherServer\<close>. The two \<^verbatim>\<open>defer\<close> statements run when the function is left,
  last registered first, also when it is left by a panic.
\<close>

definition gatherServer ::
  "SQLServer \<Rightarrow> (string \<Rightarrow> error + sql_DB) \<Rightarrow> string \<Rightarrow> Query
    \<Rightarrow> event list \<times> error option outcome" where
  "gatherServer s sql_Open server query =
     (case sql_Open server of
        Inl err \<Rightarrow> ([], Ret (Some err))
      | Inr conn \<Rightarrow>
          (let body =
             (case conn_Query conn (Script query) of
                Inl err \<Rightarrow> ([], Ret (Some err))
              | Inr rows \<Rightarrow>
                  (let body =
                     (case Columns rows of
                        Inl err \<Rightarrow> ([], Ret (Some err))
                      | Inr cols \<Rightarrow>
                          rows_loop s (query\<lparr>OrderedColumns := cols\<rparr>)
                            (pending rows) (RowsErr rows))
                   in (fst body @ [RowsClose], snd body)))
           in ([SqlOpen server, ConnQuery (Script query)] @ fst body @ [ConnClose server],
               snd body)))"

text \<open>
  What lies outside the plugin: \<open>sqlOpen e i server\<close> is the outcome of the i-th unit's
  \<^verbatim>\<open>sql.Open("mssql", server)\<close> together with the behaviour of the connection it
  yields, and \<open>localConnStrings e\<close> is the list of connection strings that
  \<^verbatim>\<open>includeConnStringsForLocalInstances\<close> derives from the registry and the host name
  (empty when either lookup fails).
\<close>

record env =
  sqlOpen :: "nat \<Rightarrow> string \<Rightarrow> error + sql_DB"
  localConnStrings :: "string list"

definition includeConnStringsForLocalInstances :: "env \<Rightarrow> SQLServer \<Rightarrow> SQLServer" where
  "includeConnStringsForLocalInstances e s = s\<lparr>Servers := Servers s @ localConnStrings e\<rparr>"

text \<open>
  The goroutines of \<^verbatim>\<open>Gather\<close>, each running
  \<^verbatim>\<open>acc.AddError(s.gatherServer(serv, query, acc))\<close>. They share nothing but the
  accumulator, and are run here one after the other in launch order, which is one of the
  schedules Go may choose (\<open>cycle_traces\<close> below has them all). No goroutine
  recovers, so a panic in one of them ends the process: the cycle does not return.
\<close>

fun run_units ::
  "SQLServer \<Rightarrow> (nat \<Rightarrow> string \<Rightarrow> error + sql_DB) \<Rightarrow> nat \<Rightarrow> (string \<times> Query) list
    \<Rightarrow> event list \<times> error option outcome" where
  "run_units s opn i [] = ([], Ret None)"
| "run_units s opn i ((serv, query) # us) =
     (case gatherServer s (opn i) serv query of
        (evs, Panic) \<Rightarrow> (evs, Panic)
      | (evs, Ret err) \<Rightarrow>
          (let rest = run_units s opn (Suc i) us
           in (evs @ [AddError err] @ fst rest, snd rest)))"

text \<open>The pairs of the two nested \<^verbatim>\<open>range\<close> loops of \<^verbatim>\<open>Gather\<close>.\<close>

definition units_of :: "SQLServer \<Rightarrow> (string \<times> Query) list" where
  "units_of s = concat (map (\<lambda>serv. map (\<lambda>nq. (serv, snd nq)) (queries s)) (Servers s))"

definition Gather :: "SQLServer \<Rightarrow> env \<Rightarrow> SQLServer \<times> event list \<times> error option outcome" where
  "Gather s0 e =
     (let s = (if \<not> isInitialized s0
               then (let s1 = initQueries s0
                     in if LocalInstancesAutoDiscovery s1
                        then includeConnStringsForLocalInstances e s1 else s1)
               else s0)
      in (s, run_units s (sqlOpen e) 0 (units_of s)))"

text \<open>
  The body of one goroutine of \<^verbatim>\<open>Gather\<close>:
  \<^verbatim>\<open>defer wg.Done(); acc.AddError(s.gatherServer(serv, query, acc))\<close>. When
  \<^verbatim>\<open>gatherServer\<close> panics the argument is never evaluated and \<^verbatim>\<open>AddError\<close> is not
  called.
\<close>

definition goroutine ::
  "SQLServer \<Rightarrow> (string \<Rightarrow> error + sql_DB) \<Rightarrow> string \<Rightarrow> Query \<Rightarrow> event list \<times> unit outcome" where
  "goroutine s sql_Open serv query =
     (case gatherServer s sql_Open serv query of
        (evs, Panic) \<Rightarrow> (evs, Panic)
      | (evs, Ret err) \<Rightarrow> (evs @ [AddError err], Ret ()))"

text \<open>
  The goroutines that the two nested loops of \<^verbatim>\<open>Gather\<close> start, and what
  \<^verbatim>\<open>gatherServer\<close> does in each. The number is only the unit's place in the launch
  order, by which the environment tells the units apart.
\<close>

definition goroutines :: "SQLServer \<Rightarrow> env \<Rightarrow> (event list \<times> unit outcome) list" where
  "goroutines s e =
     map (\<lambda>ku. goroutine s (sqlOpen e (fst ku)) (fst (snd ku)) (snd (snd ku)))
       (zip [0..<length (units_of s)] (units_of s))"

definition unit_results :: "SQLServer \<Rightarrow> env \<Rightarrow> error option outcome list" where
  "unit_results s e =
     map (\<lambda>ku. snd (gatherServer s (sqlOpen e (fst ku)) (fst (snd ku)) (snd (snd ku))))
       (zip [0..<length (units_of s)] (units_of s))"

text \<open>What a call returned, if it returned.\<close>

fun returned :: "'a outcome \<Rightarrow> 'a list" where
  "returned (Ret x) = [x]"
| "returned Panic = []"

text \<open>
  The goroutines run concurrently: the calls of a cycle in which every goroutine runs to
  its end form some interleaving of the goroutines' traces, each trace keeping its own
  order.
\<close>

fun interleavings :: "'a list list \<Rightarrow> 'a list set" where
  "interleavings [] = {[]}"
| "interleavings (t # ts) = (\<Union>tr \<in> interleavings ts. shuffles t tr)"

definition cycle_traces :: "SQLServer \<Rightarrow> env \<Rightarrow> event list set" where
  "cycle_traces s e = interleavings (map fst (goroutines s e))"

section \<open>Concrete configurations and inputs\<close>

text \<open>A configuration with every list empty, version 2 and nothing initialised.\<close>

definition cfg0 :: SQLServer where
  "cfg0 = \<lparr>Servers = [], QueryVersion = 2, AzureDB = False, IncludeQuery = [],
     ExcludeQuery = [], LocalInstancesAutoDiscovery = False, TagKeys = [],
     includeQueries = {}, excludeQueries = {}, tags = {}, queries = [],
     isInitialized = False\<rparr>"

text \<open>Both lists set, with no name in common.\<close>

definition cfg_both :: SQLServer where
  "cfg_both = cfg0\<lparr>IncludeQuery := [''Cpu''], ExcludeQuery := [''Schedulers'']\<rparr>"

text \<open>Two servers, the version-2 query \<open>Cpu\<close> alone, and \<open>host\<close> declared a tag key.\<close>

definition cfg_host :: SQLServer where
  "cfg_host = cfg0\<lparr>Servers := [''srvA'', ''srvB''], IncludeQuery := [''Cpu''],
     TagKeys := [''host'']\<rparr>"

definition cpu_query :: Query where
  "cpu_query = \<lparr>Script = sqlServerCpuV2, OrderedColumns = []\<rparr>"

text \<open>Observations on a trace of calls: the opens, the closes and the records in it.\<close>

fun is_open :: "event \<Rightarrow> bool" where
  "is_open (SqlOpen server) = True"
| "is_open ev = False"

fun is_close :: "event \<Rightarrow> bool" where
  "is_close (ConnClose server) = True"
| "is_close ev = False"

fun is_record :: "event \<Rightarrow> bool" where
  "is_record (AddFields m flds tgs) = True"
| "is_record ev = False"

text \<open>The arguments of the \<^verbatim>\<open>acc.AddError\<close> calls of a trace, in order.\<close>

fun added_errors :: "event list \<Rightarrow> error option list" where
  "added_errors [] = []"
| "added_errors (AddError err # evs) = err # added_errors evs"
| "added_errors (ev # evs) = added_errors evs"

text \<open>Connections for the exit paths of a unit.\<close>

definition conn_serving :: "string list \<Rightarrow> row list \<Rightarrow> error option \<Rightarrow> sql_DB" where
  "conn_serving cols rs final = DB (\<lambda>text. Inr (Rows (Inr cols) rs final))"

definition conn_query_fails :: sql_DB where
  "conn_query_fails = DB (\<lambda>text. Inl (Err ''query rejected''))"

definition conn_columns_fail :: sql_DB where
  "conn_columns_fail = DB (\<lambda>text. Inr (Rows (Inl (Err ''rows are closed'')) [] None))"

definition mhv :: "string list" where
  "mhv = [''measurement'', ''host'', ''value'']"

definition row_h1 :: row where
  "row_h1 = Inr [VString ''m'', VString ''h1'', VInt 42]"

definition row_h2 :: row where
  "row_h2 = Inr [VString ''m'', VString ''h2'', VInt 7]"

definition row_bad_tag :: row where
  "row_bad_tag = Inr [VString ''m'', VInt 5, VInt 7]"

text \<open>Every \<^verbatim>\<open>sql.Open\<close> is refused with the same driver error.\<close>

definition env_refusing :: env where
  "env_refusing = \<lparr>sqlOpen = (\<lambda>i server. Inl (Err ''login failed'')), localConnStrings = []\<rparr>"

text \<open>The first unit is refused, the others are served one row.\<close>

definition env_mixed :: env where
  "env_mixed =
     \<lparr>sqlOpen = (\<lambda>i server. if i = 0 then Inl (Err ''login failed'')
                                else Inr (conn_serving mhv [row_h1] None)),
      localConnStrings = []\<rparr>"

text \<open>Every unit is served one row whose tag-key column \<open>host\<close> holds an integer.\<close>

definition env_bad_tag :: env where
  "env_bad_tag =
     \<lparr>sqlOpen = (\<lambda>i server. Inr (conn_serving mhv [row_bad_tag] None)),
      localConnStrings = []\<rparr>"

text \<open>The first unit meets a failing scan on its second row, the others are served one row.\<close>

definition env_scan_fails :: env where
  "env_scan_fails =
     \<lparr>sqlOpen = (\<lambda>i server.
         if i = 0 then Inr (conn_serving mhv [row_h1, Inl (Err ''scan failed'')] None)
         else Inr (conn_serving mhv [row_h2] None)),
      localConnStrings = []\<rparr>"

text \<open>The first unit is refused; the second is served a row whose tag-key column holds an integer.\<close>

definition env_refused_then_bad_tag :: env where
  "env_refused_then_bad_tag =
     \<lparr>sqlOpen = (\<lambda>i server. if i = 0 then Inl (Err ''login failed'')
                                else Inr (conn_serving mhv [row_bad_tag] None)),
      localConnStrings = []\<rparr>"

section \<open>Facts about query selection\<close>

lemma fold_insert_set: "fold (\<lambda>q m. insert q m) xs A = set xs \<union> A"
  by (induction xs arbitrary: A) auto

lemma includeQueries_init [simp]:
  "includeQueries (initTags (initExcludeQueries (initIncludeQueries s))) = set (IncludeQuery s)"
  by (simp add: initTags_def initExcludeQueries_def initIncludeQueries_def fold_insert_set)

lemma excludeQueries_init [simp]:
  "excludeQueries (initTags (initExcludeQueries (initIncludeQueries s))) = set (ExcludeQuery s)"
  by (simp add: initTags_def initExcludeQueries_def initIncludeQueries_def fold_insert_set)

lemma tags_init [simp]:
  "tags (initTags (initExcludeQueries (initIncludeQueries s))) = set (TagKeys s)"
  by (simp add: initTags_def initExcludeQueries_def initIncludeQueries_def fold_insert_set)

lemma config_init [simp]:
  "AzureDB (initTags (initExcludeQueries (initIncludeQueries s))) = AzureDB s"
  "QueryVersion (initTags (initExcludeQueries (initIncludeQueries s))) = QueryVersion s"
  "Servers (initTags (initExcludeQueries (initIncludeQueries s))) = Servers s"
  by (simp_all add: initTags_def initExcludeQueries_def initIncludeQueries_def)

lemma filter_q_selects:
  "filter_q (initTags (initExcludeQueries (initIncludeQueries s))) n
     = selects (IncludeQuery s) (ExcludeQuery s) n"
  by (simp add: filter_q_def selects_def)

lemma map_of_fold_put:
  "distinct (map fst es) \<Longrightarrow>
   map_of (fold (put_query s) es qs) n =
     (if filter_q s n \<and> n \<in> fst ` set es then map_option bind_text (map_of es n)
      else map_of qs n)"
proof (induction es arbitrary: qs)
  case Nil
  show ?case by simp
next
  case (Cons e es)
  obtain k sc where e: "e = (k, sc)" by (cases e)
  from Cons.prems have d: "distinct (map fst es)" and k: "k \<notin> fst ` set es"
    by (auto simp: e)
  have step: "map_of (put_query s (k, sc) qs) n =
      (if filter_q s k \<and> n = k then Some (bind_text sc) else map_of qs n)"
    by (simp add: put_query_def update_conv' bind_text_def)
  have "map_of (fold (put_query s) (e # es) qs) n =
      (if filter_q s n \<and> n \<in> fst ` set es then map_option bind_text (map_of es n)
       else map_of (put_query s e qs) n)"
    by (simp add: Cons.IH [OF d])
  also have "\<dots> =
      (if filter_q s n \<and> n \<in> fst ` set (e # es)
       then map_option bind_text (map_of (e # es) n) else map_of qs n)"
    using k by (auto simp: step e)
  finally show ?case .
qed

lemma keys_fold_put:
  "fst ` set (fold (put_query s) es qs) = {n \<in> fst ` set es. filter_q s n} \<union> fst ` set qs"
proof (induction es arbitrary: qs)
  case Nil
  show ?case by simp
next
  case (Cons e es)
  have "fst ` set (put_query s e qs) = (if filter_q s (fst e) then {fst e} else {}) \<union> fst ` set qs"
    by (simp add: put_query_def dom_update)
  then show ?case by (auto simp: Cons.IH)
qed

lemma distinct_entries:
  "distinct (map fst azure_entries)" "distinct (map fst v1_entries)"
  "distinct (map fst v2_entries)"
  by (simp_all add: azure_entries_def v1_entries_def v2_entries_def)

lemma azure_disjoint:
  "fst ` set azure_entries \<inter> fst ` set v1_entries = {}"
  "fst ` set azure_entries \<inter> fst ` set v2_entries = {}"
  by (simp_all add: azure_entries_def v1_entries_def v2_entries_def)

lemma update_fresh: "k \<notin> fst ` set al \<Longrightarrow> AList.update k v al = al @ [(k, v)]"
  by (induction al) auto

lemma fold_put_all:
  "\<forall>n. filter_q s n \<Longrightarrow> distinct (map fst es) \<Longrightarrow> fst ` set es \<inter> fst ` set qs = {} \<Longrightarrow>
   fold (put_query s) es qs = qs @ map (\<lambda>e. (fst e, bind_text (snd e))) es"
proof (induction es arbitrary: qs)
  case Nil
  show ?case by simp
next
  case (Cons e es)
  have fresh: "fst e \<notin> fst ` set qs" using Cons.prems(3) by auto
  have p: "put_query s e qs = qs @ [(fst e, bind_text (snd e))]"
    using Cons.prems(1) fresh by (simp add: put_query_def update_fresh bind_text_def)
  have "fst ` set es \<inter> fst ` set (qs @ [(fst e, bind_text (snd e))]) = {}"
    using Cons.prems(2,3) by auto
  with Cons.IH [of "qs @ [(fst e, bind_text (snd e))]"] Cons.prems(1,2) p
  show ?case by simp
qed

lemma initQueries_queries:
  "queries (initQueries s) =
     fold (put_query (initTags (initExcludeQueries (initIncludeQueries s))))
       (if QueryVersion s = 2 then v2_entries else v1_entries)
       (if AzureDB s
        then fold (put_query (initTags (initExcludeQueries (initIncludeQueries s)))) azure_entries []
        else [])"
  by (simp add: initQueries_def Let_def)

lemma initQueries_fold:
  "queries (initQueries s) =
     fold (put_query (initTags (initExcludeQueries (initIncludeQueries s))))
       (catalog_of (AzureDB s) (if QueryVersion s = 2 then v2_entries else v1_entries)) []"
  by (simp add: initQueries_queries catalog_of_def)

lemma distinct_catalog:
  "distinct (map fst (catalog_of a v1_entries))" "distinct (map fst (catalog_of a v2_entries))"
  using distinct_entries azure_disjoint by (auto simp: catalog_of_def)

lemma map_of_initQueries:
  "map_of (queries (initQueries s)) n =
     (if selects (IncludeQuery s) (ExcludeQuery s) n
      then map_option bind_text
             (map_of (catalog_of (AzureDB s)
                (if QueryVersion s = 2 then v2_entries else v1_entries)) n)
      else None)"
proof -
  have d: "distinct (map fst (catalog_of (AzureDB s)
             (if QueryVersion s = 2 then v2_entries else v1_entries)))"
    using distinct_catalog by simp
  show ?thesis
    unfolding initQueries_fold map_of_fold_put [OF d] filter_q_selects
    by (auto simp: map_of_eq_None_iff)
qed

lemma keys_initQueries:
  "fst ` set (queries (initQueries s)) =
     {n \<in> fst ` set (catalog_of (AzureDB s)
                (if QueryVersion s = 2 then v2_entries else v1_entries)).
        selects (IncludeQuery s) (ExcludeQuery s) n}"
  unfolding initQueries_fold keys_fold_put filter_q_selects by simp

subsection \<open>Empty lists\<close>

text \<open>
  Claim C6. When both the include-list and the exclude-list are empty, \<^verbatim>\<open>initQueries\<close>
  selects every entry of the catalog (version 1 or version 2, with or without the
  AzureDB entries), each bound to the query text of that catalog, in the catalog's order.
\<close>
theorem empty_lists_select_catalog:
  assumes "IncludeQuery s = []" and "ExcludeQuery s = []"
  shows "queries (initQueries s) =
           map (\<lambda>e. (fst e, \<lparr>Script = snd e, OrderedColumns = []\<rparr>))
             (catalog_of (AzureDB s) (if QueryVersion s = 2 then v2_entries else v1_entries))"
proof -
  let ?s = "initTags (initExcludeQueries (initIncludeQueries s))"
  have all: "\<forall>n. filter_q ?s n"
    using assms by (simp add: filter_q_selects selects_def)
  have d: "distinct (map fst (catalog_of (AzureDB s)
             (if QueryVersion s = 2 then v2_entries else v1_entries)))"
    using distinct_catalog by simp
  show ?thesis
    unfolding initQueries_fold
    using fold_put_all [OF all d, of "[]"] by (simp add: bind_text_def)
qed

theorem empty_lists_select_catalog_witness:
  "IncludeQuery (cfg0\<lparr>QueryVersion := 1, AzureDB := True\<rparr>) = [] \<and>
   ExcludeQuery (cfg0\<lparr>QueryVersion := 1, AzureDB := True\<rparr>) = [] \<and>
   map fst (queries (initQueries (cfg0\<lparr>QueryVersion := 1, AzureDB := True\<rparr>))) =
     [''AzureDBResourceStats'', ''AzureDBResourceGovernance'', ''PerformanceCounters'',
      ''WaitStatsCategorized'', ''CPUHistory'', ''DatabaseIO'', ''DatabaseSize'',
      ''DatabaseStats'', ''DatabaseProperties'', ''MemoryClerk'', ''VolumeSpace'',
      ''PerformanceMetrics''] \<and>
   map_of (queries (initQueries (cfg0\<lparr>QueryVersion := 1, AzureDB := True\<rparr>))) ''CPUHistory''
     = Some \<lparr>Script = sqlCPUHistory, OrderedColumns = []\<rparr>"
  using empty_lists_select_catalog [of "cfg0\<lparr>QueryVersion := 1, AzureDB := True\<rparr>"]
  by (simp add: cfg0_def catalog_of_def azure_entries_def v1_entries_def)

lemma initQueries_frozen:
  "includeQueries (initQueries s) = set (IncludeQuery s)"
  "excludeQueries (initQueries s) = set (ExcludeQuery s)"
  "tags (initQueries s) = set (TagKeys s)"
  by (simp_all add: initQueries_def Let_def)

lemma filter_q_initQueries:
  "filter_q (initQueries s) n = selects (IncludeQuery s) (ExcludeQuery s) n"
  by (simp add: filter_q_def selects_def initQueries_frozen)

subsection \<open>A non-empty exclude-list\<close>

text \<open>
  Claim C9. When the exclude-list is not empty, the closure's answer for a name is
  exactly "the name is not in the exclude-list", whatever the include-list holds; so
  the selected names are the catalog names absent from the exclude-list, also those
  absent from a non-empty include-list.
\<close>
theorem exclude_list_alone_decides:
  assumes "ExcludeQuery s \<noteq> []"
  shows "filter_q (initQueries s) n = (n \<notin> set (ExcludeQuery s)) \<and>
         (n \<in> fst ` set (queries (initQueries s))) =
           (n \<in> fst ` set (catalog_of (AzureDB s)
                    (if QueryVersion s = 2 then v2_entries else v1_entries)) \<and>
            n \<notin> set (ExcludeQuery s))"
  using assms by (auto simp: filter_q_initQueries keys_initQueries selects_def)

theorem exclude_list_alone_decides_witness:
  "ExcludeQuery cfg_both \<noteq> [] \<and> IncludeQuery cfg_both \<noteq> [] \<and>
   ''DatabaseIO'' \<notin> set (IncludeQuery cfg_both) \<and>
   filter_q (initQueries cfg_both) ''DatabaseIO'' \<and>
   ''DatabaseIO'' \<in> fst ` set (queries (initQueries cfg_both)) \<and>
   ''Schedulers'' \<notin> fst ` set (queries (initQueries cfg_both))"
  using exclude_list_alone_decides [of cfg_both "''DatabaseIO''"]
    exclude_list_alone_decides [of cfg_both "''Schedulers''"]
  by (simp add: cfg_both_def cfg0_def catalog_of_def v2_entries_def)

subsection \<open>The version switch\<close>

text \<open>
  Claim C10. Every \<^verbatim>\<open>QueryVersion\<close> other than 2 (0, 1, negative, greater than 2) makes
  \<^verbatim>\<open>initQueries\<close> draw on the version-1 entries; the value 2, and only it, draws on
  the version-2 entries.
\<close>
theorem only_version_2_selects_v2:
  "(QueryVersion s \<noteq> 2 \<longrightarrow>
      map_of (queries (initQueries s)) n =
        (if selects (IncludeQuery s) (ExcludeQuery s) n
         then map_option bind_text (map_of (catalog_of (AzureDB s) v1_entries) n) else None)) \<and>
   (QueryVersion s = 2 \<longrightarrow>
      map_of (queries (initQueries s)) n =
        (if selects (IncludeQuery s) (ExcludeQuery s) n
         then map_option bind_text (map_of (catalog_of (AzureDB s) v2_entries) n) else None))"
  by (simp add: map_of_initQueries)

theorem only_version_2_selects_v2_witness:
  "QueryVersion (cfg0\<lparr>QueryVersion := 0\<rparr>) \<noteq> 2 \<and>
   map_of (queries (initQueries (cfg0\<lparr>QueryVersion := 0\<rparr>))) ''PerformanceCounters''
     = Some \<lparr>Script = sqlPerformanceCounters, OrderedColumns = []\<rparr> \<and>
   QueryVersion (cfg0\<lparr>QueryVersion := - 1\<rparr>) \<noteq> 2 \<and>
   map_of (queries (initQueries (cfg0\<lparr>QueryVersion := - 1\<rparr>))) ''CPUHistory''
     = Some \<lparr>Script = sqlCPUHistory, OrderedColumns = []\<rparr> \<and>
   QueryVersion (cfg0\<lparr>QueryVersion := 3\<rparr>) \<noteq> 2 \<and>
   map_of (queries (initQueries (cfg0\<lparr>QueryVersion := 3\<rparr>))) ''Cpu'' = None \<and>
   QueryVersion cfg0 = 2 \<and>
   map_of (queries (initQueries cfg0)) ''PerformanceCounters''
     = Some \<lparr>Script = sqlPerformanceCountersV2, OrderedColumns = []\<rparr> \<and>
   map_of (queries (initQueries cfg0)) ''CPUHistory'' = None"
  using only_version_2_selects_v2 [of "cfg0\<lparr>QueryVersion := 0\<rparr>" "''PerformanceCounters''"]
    only_version_2_selects_v2 [of "cfg0\<lparr>QueryVersion := - 1\<rparr>" "''CPUHistory''"]
    only_version_2_selects_v2 [of "cfg0\<lparr>QueryVersion := 3\<rparr>" "''Cpu''"]
    only_version_2_selects_v2 [of cfg0 "''PerformanceCounters''"]
    only_version_2_selects_v2 [of cfg0 "''CPUHistory''"]
  by (simp add: cfg0_def catalog_of_def v1_entries_def v2_entries_def selects_def bind_text_def)

subsection \<open>Both lists non-empty\<close>

text \<open>
  Claim C1 says that with both lists non-empty the selection is the catalog names that
  are in the include-list and not in the exclude-list. The closure computes the include
  check and then overwrites its result: with include-list \<open>[Cpu]\<close> and exclude-list
  \<open>[Schedulers]\<close> the query \<open>DatabaseIO\<close>, which is not in the include-list, is
  selected.
\<close>
theorem include_list_overridden:
  "IncludeQuery cfg_both = [''Cpu''] \<and> ExcludeQuery cfg_both = [''Schedulers''] \<and>
   QueryVersion cfg_both = 2 \<and>
   map_of (queries (initQueries cfg_both)) ''DatabaseIO''
     = Some \<lparr>Script = sqlDatabaseIOV2, OrderedColumns = []\<rparr>"
  by (simp add: cfg_both_def cfg0_def initQueries_def Let_def initIncludeQueries_def
      initExcludeQueries_def initTags_def filter_q_def put_query_def v2_entries_def)

section \<open>Facts about row decoding\<close>

lemma bind_column_snoc:
  "fold bind_column (cols @ [c]) init = bind_column c (fold bind_column cols init)"
  by simp

lemma columnVars_fold: "snd (fold bind_column cols ([], [])) = [0..<length cols]"
  by (induction cols rule: rev_induct) (simp_all add: bind_column_def Let_def)

lemma columnMap_keys: "fst ` set (fst (fold bind_column cols ([], []))) = set cols"
  by (induction cols rule: rev_induct) (auto simp: bind_column_def Let_def dom_update)

lemma columnMap_distinct: "distinct (map fst (fst (fold bind_column cols ([], []))))"
  by (induction cols rule: rev_induct) (simp_all add: bind_column_def Let_def distinct_update)

lemma columnMap_snoc:
  "map_of (fst (fold bind_column (cols @ [c]) ([], []))) =
     (map_of (fst (fold bind_column cols ([], []))))(c \<mapsto> length cols)"
  by (simp add: bind_column_def Let_def update_conv' columnVars_fold)

lemma columnMap_final:
  "i < length cols \<Longrightarrow> cols ! i \<notin> set (drop (Suc i) cols) \<Longrightarrow>
   map_of (fst (fold bind_column cols ([], []))) (cols ! i) = Some i"
proof (induction cols rule: rev_induct)
  case Nil
  then show ?case by simp
next
  case (snoc c cols)
  show ?case
  proof (cases "i = length cols")
    case True
    then show ?thesis unfolding columnMap_snoc by simp
  next
    case False
    with snoc.prems have i: "i < length cols" by simp
    with snoc.prems(2) have "cols ! i \<noteq> c" and "cols ! i \<notin> set (drop (Suc i) cols)"
      by (auto simp: nth_append)
    with snoc.IH i show ?thesis unfolding columnMap_snoc by (simp add: nth_append)
  qed
qed

lemma columnMap_range:
  "map_of (fst (fold bind_column cols ([], []))) c = Some p \<Longrightarrow>
   p < length cols \<and> cols ! p = c \<and> c \<notin> set (drop (Suc p) cols)"
proof (induction cols rule: rev_induct)
  case Nil
  then show ?case by simp
next
  case (snoc x cols)
  show ?case
  proof (cases "c = x")
    case True
    with snoc.prems show ?thesis unfolding columnMap_snoc by auto
  next
    case False
    with snoc.prems have "map_of (fst (fold bind_column cols ([], []))) c = Some p"
      unfolding columnMap_snoc by simp
    from snoc.IH [OF this] False show ?thesis by (auto simp: nth_append)
  qed
qed

lemma scan_fold:
  "length st = k + length vs \<Longrightarrow>
   fold (\<lambda>pv st. st[fst pv := snd pv]) (zip [k..<k + length vs] vs) st = take k st @ vs"
proof (induction vs arbitrary: k st)
  case Nil
  then show ?case by simp
next
  case (Cons v vs)
  have up: "[k..<k + length (v # vs)] = k # [Suc k..<Suc k + length vs]"
    using upt_conv_Cons [of k "k + length (v # vs)"] by simp
  have len: "length (st[k := v]) = Suc k + length vs" using Cons.prems by simp
  have tk: "take (Suc k) (st[k := v]) = take k st @ [v]"
    using Cons.prems by (simp add: take_Suc_conv_app_nth)
  show ?case unfolding up using Cons.IH [OF len] tk by simp
qed

lemma Scan_ok:
  "length vs = n \<Longrightarrow> Scan (Inr vs) [0..<n] (replicate n VNil) = Inr vs"
  using scan_fold [of "replicate n VNil" 0 vs] by (simp add: Scan_def)

lemma Scan_mismatch:
  "length vs \<noteq> n \<Longrightarrow> \<exists>err. Scan (Inr vs) [0..<n] st = Inl err"
  by (simp add: Scan_def)

lemma classify_Panic_iff:
  "classify tg st cm acc = Panic \<longleftrightarrow>
     (\<exists>c p. (c, p) \<in> set cm \<and> (c = ''measurement'' \<or> c \<in> tg) \<and> as_string (st ! p) = None)"
  by (induction tg st cm acc rule: classify.induct) (auto split: option.splits)

lemma classify_fields:
  "classify tg st cm acc = Ret (m, t, f) \<Longrightarrow> distinct (map fst cm) \<Longrightarrow>
   f c = (if c \<in> fst ` set cm \<and> c \<noteq> ''measurement'' \<and> c \<notin> tg
          then map_option (\<lambda>p. st ! p) (map_of cm c) else snd (snd acc) c)"
  by (induction tg st cm acc rule: classify.induct)
     (auto split: option.splits if_splits simp: rev_image_eqI)

lemma classify_tags:
  "classify tg st cm acc = Ret (m, t, f) \<Longrightarrow> distinct (map fst cm) \<Longrightarrow>
   t c = (if c \<in> fst ` set cm \<and> c \<noteq> ''measurement'' \<and> c \<in> tg
          then Option.bind (map_of cm c) (\<lambda>p. as_string (st ! p)) else fst (snd acc) c)"
  by (induction tg st cm acc rule: classify.induct)
     (auto split: option.splits if_splits simp: rev_image_eqI)

lemma classify_measurement:
  "classify tg st cm acc = Ret (m, t, f) \<Longrightarrow> distinct (map fst cm) \<Longrightarrow>
   (''measurement'' \<notin> fst ` set cm \<longrightarrow> m = fst acc) \<and>
   (\<forall>p. (''measurement'', p) \<in> set cm \<longrightarrow> as_string (st ! p) = Some m)"
  by (induction tg st cm acc rule: classify.induct)
     (auto split: option.splits if_splits simp: rev_image_eqI)

text \<open>
  Go leaves the order of \<^verbatim>\<open>range columnMap\<close> open. The outcome of the loop is the same
  for every order of the entries.
\<close>

lemma classify_order_irrelevant:
  assumes d: "distinct (map fst cm)" and d': "distinct (map fst cm')"
    and same: "set cm' = set cm"
  shows "classify tg st cm' acc = classify tg st cm acc"
proof (cases "classify tg st cm acc")
  case Panic
  then have "classify tg st cm' acc = Panic"
    unfolding classify_Panic_iff using same by simp
  with Panic show ?thesis by simp
next
  case (Ret res)
  obtain m t f where res: "res = (m, t, f)" by (cases res)
  from Ret have "classify tg st cm acc \<noteq> Panic" by simp
  then have "classify tg st cm' acc \<noteq> Panic"
    unfolding classify_Panic_iff using same by simp
  then obtain m' t' f' where r': "classify tg st cm' acc = Ret (m', t', f')"
    by (cases "classify tg st cm' acc") auto
  from Ret res have r: "classify tg st cm acc = Ret (m, t, f)" by simp
  have maps: "map_of cm' = map_of cm"
    using d d' same by (simp add: map_of_inject_set)
  have keys: "fst ` set cm' = fst ` set cm" using same by simp
  have "f' = f"
    using classify_fields [OF r d] classify_fields [OF r' d'] by (simp add: fun_eq_iff maps keys)
  moreover have "t' = t"
    using classify_tags [OF r d] classify_tags [OF r' d'] by (simp add: fun_eq_iff maps keys)
  moreover have "m' = m"
  proof (cases "''measurement'' \<in> fst ` set cm")
    case False
    with classify_measurement [OF r d] classify_measurement [OF r' d'] keys
    show ?thesis by simp
  next
    case True
    then obtain p where p: "(''measurement'', p) \<in> set cm" by auto
    with classify_measurement [OF r d] have "as_string (st ! p) = Some m" by blast
    moreover from p same classify_measurement [OF r' d'] have "as_string (st ! p) = Some m'"
      by blast
    ultimately show ?thesis by simp
  qed
  ultimately show ?thesis using r r' by simp
qed

lemma accRow_scanned:
  "length vs = length (OrderedColumns query) \<Longrightarrow>
   accRow s query (Inr vs) =
     (case classify (tags s) vs (fst (fold bind_column (OrderedColumns query) ([], [])))
             ([], Map.empty, Map.empty) of
        Panic \<Rightarrow> ([], Panic)
      | Ret (measurement, tgs, flds) \<Rightarrow> ([AddFields measurement flds tgs], Ret None))"
  by (simp add: accRow_def Let_def columnVars_fold Scan_ok)

lemma accRow_scan_error: "accRow s query (Inl err) = ([], Ret (Some err))"
  by (simp add: accRow_def Let_def Scan_def)

lemma accRow_count_mismatch:
  "length vs \<noteq> length (OrderedColumns query) \<Longrightarrow>
   \<exists>err. accRow s query (Inr vs) = ([], Ret (Some err))"
  by (simp add: accRow_def Let_def columnVars_fold Scan_def)

lemma as_string_Some_iff: "as_string v = Some str \<longleftrightarrow> v = VString str"
  by (cases v) auto

lemma columnMap_mem:
  "(c, p) \<in> set (fst (fold bind_column cols ([], []))) \<longleftrightarrow>
   map_of (fst (fold bind_column cols ([], []))) c = Some p"
  using columnMap_distinct [of cols] by (auto dest: map_of_SomeD)

lemma accRow_decodes:
  assumes len: "length vs = length cols"
    and textual: "\<forall>i<length cols. cols ! i \<notin> set (drop (Suc i) cols) \<longrightarrow>
          (cols ! i = ''measurement'' \<or> cols ! i \<in> tags s) \<longrightarrow> as_string (vs ! i) \<noteq> None"
  shows "\<exists>m flds tgs.
     accRow s (query\<lparr>OrderedColumns := cols\<rparr>) (Inr vs) = ([AddFields m flds tgs], Ret None) \<and>
     dom flds = {c \<in> set cols. c \<noteq> ''measurement'' \<and> c \<notin> tags s} \<and>
     dom tgs = {c \<in> set cols. c \<noteq> ''measurement'' \<and> c \<in> tags s} \<and>
     (''measurement'' \<notin> set cols \<longrightarrow> m = []) \<and>
     (\<forall>i<length cols. cols ! i \<notin> set (drop (Suc i) cols) \<longrightarrow>
        (if cols ! i = ''measurement'' then vs ! i = VString m
         else if cols ! i \<in> tags s then map_option VString (tgs (cols ! i)) = Some (vs ! i)
         else flds (cols ! i) = Some (vs ! i)))"
proof -
  let ?cm = "fst (fold bind_column cols ([], []))"
  let ?acc = "([], Map.empty, Map.empty) :: string \<times> (string \<rightharpoonup> string) \<times> (string \<rightharpoonup> val)"
  have d: "distinct (map fst ?cm)" by (rule columnMap_distinct)
  have keys: "fst ` set ?cm = set cols" by (rule columnMap_keys)
  have ok: "as_string (vs ! p) \<noteq> None"
    if "(c, p) \<in> set ?cm" "c = ''measurement'' \<or> c \<in> tags s" for c p
  proof -
    from that(1) have "map_of ?cm c = Some p" by (simp add: columnMap_mem)
    from columnMap_range [OF this] textual that(2) show ?thesis by auto
  qed
  have "classify (tags s) vs ?cm ?acc \<noteq> Panic"
    unfolding classify_Panic_iff using ok by blast
  then obtain m t f where r: "classify (tags s) vs ?cm ?acc = Ret (m, t, f)"
    by (cases "classify (tags s) vs ?cm ?acc") auto
  have run: "accRow s (query\<lparr>OrderedColumns := cols\<rparr>) (Inr vs) = ([AddFields m f t], Ret None)"
    using len r by (simp add: accRow_scanned)
  have f: "f c = (if c \<in> set cols \<and> c \<noteq> ''measurement'' \<and> c \<notin> tags s
                  then map_option (\<lambda>p. vs ! p) (map_of ?cm c) else None)" for c
    using classify_fields [OF r d, of c] keys by simp
  have t: "t c = (if c \<in> set cols \<and> c \<noteq> ''measurement'' \<and> c \<in> tags s
                  then Option.bind (map_of ?cm c) (\<lambda>p. as_string (vs ! p)) else None)" for c
    using classify_tags [OF r d, of c] keys by simp
  have present: "\<exists>p. map_of ?cm c = Some p" if "c \<in> set cols" for c
    using that keys by (metis domD dom_map_of_conv_image_fst)
  have domf: "dom f = {c \<in> set cols. c \<noteq> ''measurement'' \<and> c \<notin> tags s}"
  proof (rule set_eqI)
    fix c
    show "c \<in> dom f \<longleftrightarrow> c \<in> {c \<in> set cols. c \<noteq> ''measurement'' \<and> c \<notin> tags s}"
      using present [of c] by (auto simp: f domIff)
  qed
  have domt: "dom t = {c \<in> set cols. c \<noteq> ''measurement'' \<and> c \<in> tags s}"
  proof (rule set_eqI)
    fix c
    show "c \<in> dom t \<longleftrightarrow> c \<in> {c \<in> set cols. c \<noteq> ''measurement'' \<and> c \<in> tags s}"
    proof (cases "c \<in> set cols \<and> c \<noteq> ''measurement'' \<and> c \<in> tags s")
      case True
      then obtain p where p: "map_of ?cm c = Some p" using present by blast
      then have "(c, p) \<in> set ?cm" by (simp add: columnMap_mem)
      from ok [OF this] True have "as_string (vs ! p) \<noteq> None" by simp
      with True p show ?thesis by (auto simp: t domIff)
    next
      case False
      then show ?thesis by (auto simp: t domIff)
    qed
  qed
  have cells: "if cols ! i = ''measurement'' then vs ! i = VString m
         else if cols ! i \<in> tags s then map_option VString (t (cols ! i)) = Some (vs ! i)
         else f (cols ! i) = Some (vs ! i)"
    if i: "i < length cols" and fin: "cols ! i \<notin> set (drop (Suc i) cols)" for i
  proof -
    have at: "map_of ?cm (cols ! i) = Some i" using i fin by (rule columnMap_final)
    have mem: "cols ! i \<in> set cols" using i by simp
    show ?thesis
    proof (cases "cols ! i = ''measurement''")
      case True
      with at have "(''measurement'', i) \<in> set ?cm" by (simp add: columnMap_mem)
      with classify_measurement [OF r d] have "as_string (vs ! i) = Some m" by blast
      with True show ?thesis by (simp add: as_string_Some_iff)
    next
      case False
      show ?thesis
      proof (cases "cols ! i \<in> tags s")
        case True
        from at have "(cols ! i, i) \<in> set ?cm" by (simp add: columnMap_mem)
        from ok [OF this] True obtain str where str: "as_string (vs ! i) = Some str" by auto
        then have "vs ! i = VString str" by (simp add: as_string_Some_iff)
        with False True mem at str show ?thesis by (simp add: t)
      next
        case notag: False
        with False mem at show ?thesis by (simp add: f)
      qed
    qed
  qed
  have absent: "''measurement'' \<notin> set cols \<longrightarrow> m = []"
    using classify_measurement [OF r d] keys by simp
  from run domf domt absent cells show ?thesis by blast
qed

lemma tags_cfg_host: "tags (initQueries cfg_host) = {''host''}"
  by (simp add: initQueries_frozen cfg_host_def cfg0_def)

subsection \<open>The record of a row\<close>

text \<open>
  Claim C4. Let a row be scanned into the columns \<open>cols\<close>, with every column that is
  named \<open>measurement\<close> or is a tag key holding text. Then \<^verbatim>\<open>accRow\<close> reports exactly
  one record. Its field mapping has as keys exactly the column names that are neither
  \<open>measurement\<close> nor a tag key, each with the scanned value unchanged; its tag mapping
  has as keys exactly the tag-key columns, each with the text of its value; and its
  measurement name is the text of the \<open>measurement\<close> column. Where a name occurs in
  several columns the last of them counts (\<open>cols ! i \<notin> set (drop (Suc i) cols)\<close>
  says that column \<open>i\<close> is the last of its name; with unique names every column is).
\<close>

theorem accRow_classifies_columns:
  assumes len: "length vs = length cols"
    and textual: "\<forall>i<length cols. cols ! i \<notin> set (drop (Suc i) cols) \<longrightarrow>
          (cols ! i = ''measurement'' \<or> cols ! i \<in> tags s) \<longrightarrow> as_string (vs ! i) \<noteq> None"
  shows "\<exists>m flds tgs.
     accRow s (query\<lparr>OrderedColumns := cols\<rparr>) (Inr vs) = ([AddFields m flds tgs], Ret None) \<and>
     dom flds = {c \<in> set cols. c \<noteq> ''measurement'' \<and> c \<notin> tags s} \<and>
     dom tgs = {c \<in> set cols. c \<noteq> ''measurement'' \<and> c \<in> tags s} \<and>
     (\<forall>i<length cols. cols ! i \<notin> set (drop (Suc i) cols) \<longrightarrow>
        (if cols ! i = ''measurement'' then vs ! i = VString m
         else if cols ! i \<in> tags s then map_option VString (tgs (cols ! i)) = Some (vs ! i)
         else flds (cols ! i) = Some (vs ! i)))"
  using accRow_decodes [OF len textual, of query]
  by (elim exE conjE) (intro exI conjI; assumption)

theorem accRow_classifies_columns_witness:
  "length [VString ''m'', VString ''h1'', VInt 42] = length [''measurement'', ''host'', ''value''] \<and>
   accRow (initQueries cfg_host) (cpu_query\<lparr>OrderedColumns := [''measurement'', ''host'', ''value'']\<rparr>)
     (Inr [VString ''m'', VString ''h1'', VInt 42])
   = ([AddFields ''m'' [''value'' \<mapsto> VInt 42] [''host'' \<mapsto> ''h1'']], Ret None)"
proof -
  have len: "length [VString ''m'', VString ''h1'', VInt 42]
      = length [''measurement'', ''host'', ''value'']" by simp
  have textual: "\<forall>i<length [''measurement'', ''host'', ''value''].
      [''measurement'', ''host'', ''value''] ! i
        \<notin> set (drop (Suc i) [''measurement'', ''host'', ''value'']) \<longrightarrow>
      ([''measurement'', ''host'', ''value''] ! i = ''measurement'' \<or>
       [''measurement'', ''host'', ''value''] ! i \<in> tags (initQueries cfg_host)) \<longrightarrow>
      as_string ([VString ''m'', VString ''h1'', VInt 42] ! i) \<noteq> None"
    by (simp add: tags_cfg_host All_less_Suc numeral_3_eq_3)
  from accRow_classifies_columns [OF len textual, of cpu_query]
  show ?thesis
    by (simp add: accRow_def Let_def bind_column_def Scan_def tags_cfg_host)
qed

section \<open>Facts about a gather unit\<close>

lemma accRow_cases:
  "(\<exists>m flds tgs. accRow s q r = ([AddFields m flds tgs], Ret None)) \<or>
   (\<exists>err. accRow s q r = ([], Ret (Some err))) \<or> accRow s q r = ([], Panic)"
  by (auto simp: accRow_def Let_def split: sum.splits outcome.splits prod.splits)

lemma accRow_failure_silent: "snd (accRow s q r) \<noteq> Ret None \<Longrightarrow> fst (accRow s q r) = []"
  using accRow_cases [of s q r] by auto

lemma accRow_success_record:
  "snd (accRow s q r) = Ret None \<Longrightarrow> \<exists>m flds tgs. fst (accRow s q r) = [AddFields m flds tgs]"
  using accRow_cases [of s q r] by auto

declare rows_loop.simps(2) [simp del]

lemma rows_loop_ok:
  "snd (accRow s q r) = Ret None \<Longrightarrow>
   rows_loop s q (r # rs) final
     = (fst (accRow s q r) @ fst (rows_loop s q rs final), snd (rows_loop s q rs final))"
  by (cases "accRow s q r") (simp add: Let_def rows_loop.simps(2))

lemma rows_loop_fail:
  "snd (accRow s q r) \<noteq> Ret None \<Longrightarrow>
   rows_loop s q (r # rs) final = ([], snd (accRow s q r))"
  using accRow_failure_silent [of s q r]
  by (cases "accRow s q r") (auto simp: rows_loop.simps(2) split: outcome.splits option.splits)

lemma rows_loop_prefix:
  "\<forall>r\<in>set pre. snd (accRow s q r) = Ret None \<Longrightarrow>
   rows_loop s q (pre @ rs) final
     = (concat (map (\<lambda>r. fst (accRow s q r)) pre) @ fst (rows_loop s q rs final),
        snd (rows_loop s q rs final))"
  by (induction pre) (simp_all add: rows_loop_ok)

lemma rows_loop_events:
  "filter is_open (fst (rows_loop s q rs final)) = [] \<and>
   filter is_close (fst (rows_loop s q rs final)) = [] \<and>
   added_errors (fst (rows_loop s q rs final)) = []"
proof (induction rs)
  case Nil
  show ?case by simp
next
  case (Cons r rs)
  show ?case
  proof (cases "snd (accRow s q r) = Ret None")
    case True
    from accRow_success_record [OF True] obtain m flds tgs
      where "fst (accRow s q r) = [AddFields m flds tgs]" by blast
    with Cons.IH True show ?thesis by (simp add: rows_loop_ok)
  next
    case False
    then show ?thesis by (simp add: rows_loop_fail)
  qed
qed

lemma added_errors_append: "added_errors (xs @ ys) = added_errors xs @ added_errors ys"
  by (induction xs rule: added_errors.induct) simp_all

lemma gatherServer_opened:
  "sql_Open server = Inr conn \<Longrightarrow>
   \<exists>body. fst (gatherServer s sql_Open server query)
       = [SqlOpen server, ConnQuery (Script query)] @ body @ [ConnClose server] \<and>
     filter is_open body = [] \<and> filter is_close body = [] \<and> added_errors body = []"
  using rows_loop_events
  by (auto simp: gatherServer_def Let_def added_errors_append split: sum.splits)

lemma gatherServer_refused:
  "sql_Open server = Inl err \<Longrightarrow> gatherServer s sql_Open server query = ([], Ret (Some err))"
  by (simp add: gatherServer_def)

lemma gatherServer_no_AddError: "added_errors (fst (gatherServer s sql_Open server query)) = []"
proof (cases "sql_Open server")
  case (Inl err)
  then show ?thesis by (simp add: gatherServer_refused)
next
  case (Inr conn)
  from gatherServer_opened [of sql_Open server conn s query, OF this] show ?thesis
    by (auto simp: added_errors_append)
qed

subsection \<open>Connections\<close>

text \<open>
  Claim C7. In a unit whose \<^verbatim>\<open>sql.Open\<close> succeeded, the trace of \<^verbatim>\<open>gatherServer\<close>
  holds exactly one open and exactly one \<^verbatim>\<open>conn.Close\<close>, the open first and the close
  last, whatever the connection then does: normal completion, a failing query, a failing
  \<^verbatim>\<open>rows.Columns\<close>, a failing scan, or a row whose decoding does not return.
\<close>
theorem gatherServer_releases_connection:
  assumes "sql_Open server = Inr conn"
  shows "length (filter is_open (fst (gatherServer s sql_Open server query))) = 1 \<and>
         length (filter is_close (fst (gatherServer s sql_Open server query))) = 1 \<and>
         hd (fst (gatherServer s sql_Open server query)) = SqlOpen server \<and>
         last (fst (gatherServer s sql_Open server query)) = ConnClose server"
  using gatherServer_opened [of sql_Open server conn s query, OF assms] by auto

lemmas eval_unit =
  gatherServer_def rows_loop.simps(2) accRow_def Let_def bind_column_def Scan_def
  conn_serving_def conn_query_fails_def conn_columns_fail_def mhv_def row_h1_def row_h2_def
  row_bad_tag_def cpu_query_def

theorem gatherServer_releases_connection_witness:
  "fst (gatherServer (initQueries cfg_host) (\<lambda>sv. Inr (conn_serving mhv [row_h1] None))
          ''srvA'' cpu_query)
     = [SqlOpen ''srvA'', ConnQuery sqlServerCpuV2,
        AddFields ''m'' [''value'' \<mapsto> VInt 42] [''host'' \<mapsto> ''h1''],
        RowsClose, ConnClose ''srvA''] \<and>
   gatherServer (initQueries cfg_host) (\<lambda>sv. Inr conn_query_fails) ''srvA'' cpu_query
     = ([SqlOpen ''srvA'', ConnQuery sqlServerCpuV2, ConnClose ''srvA''],
        Ret (Some (Err ''query rejected''))) \<and>
   gatherServer (initQueries cfg_host) (\<lambda>sv. Inr conn_columns_fail) ''srvA'' cpu_query
     = ([SqlOpen ''srvA'', ConnQuery sqlServerCpuV2, RowsClose, ConnClose ''srvA''],
        Ret (Some (Err ''rows are closed''))) \<and>
   gatherServer (initQueries cfg_host)
       (\<lambda>sv. Inr (conn_serving mhv [Inl (Err ''scan failed'')] None)) ''srvA'' cpu_query
     = ([SqlOpen ''srvA'', ConnQuery sqlServerCpuV2, RowsClose, ConnClose ''srvA''],
        Ret (Some (Err ''scan failed''))) \<and>
   gatherServer (initQueries cfg_host) (\<lambda>sv. Inr (conn_serving mhv [row_bad_tag] None))
       ''srvA'' cpu_query
     = ([SqlOpen ''srvA'', ConnQuery sqlServerCpuV2, RowsClose, ConnClose ''srvA''], Panic)"
  using
    gatherServer_releases_connection [of "\<lambda>sv. Inr (conn_serving mhv [row_h1] None)"
      "''srvA''" "conn_serving mhv [row_h1] None" "initQueries cfg_host" cpu_query]
    gatherServer_releases_connection [of "\<lambda>sv. Inr conn_query_fails"
      "''srvA''" conn_query_fails "initQueries cfg_host" cpu_query]
    gatherServer_releases_connection [of "\<lambda>sv. Inr conn_columns_fail"
      "''srvA''" conn_columns_fail "initQueries cfg_host" cpu_query]
    gatherServer_releases_connection [of
      "\<lambda>sv. Inr (conn_serving mhv [Inl (Err ''scan failed'')] None)"
      "''srvA''" "conn_serving mhv [Inl (Err ''scan failed'')] None" "initQueries cfg_host"
      cpu_query]
    gatherServer_releases_connection [of "\<lambda>sv. Inr (conn_serving mhv [row_bad_tag] None)"
      "''srvA''" "conn_serving mhv [row_bad_tag] None" "initQueries cfg_host" cpu_query]
  by (simp add: eval_unit tags_cfg_host)

subsection \<open>Rows before a failure\<close>

text \<open>
  Claim C8. \<^verbatim>\<open>accRow\<close> hands the record of a row to the accumulator before it
  returns, so when the rows \<open>pre\<close> at the head of a unit's stream decode, the trace of
  the unit holds, right after the query, one \<^verbatim>\<open>AddFields\<close> call for each row of
  \<open>pre\<close>, in order, whatever comes after them. In particular they are all there when
  the stream then ends, with or without an error of the cursor (\<^verbatim>\<open>rows.Err()\<close>), and
  when the next row fails in \<^verbatim>\<open>accRow\<close>, by an error of the scan or by a panic; the
  unit then ends with that outcome.
\<close>

theorem rows_before_failure_reported:
  assumes "sql_Open server = Inr conn"
    and "conn_Query conn (Script query) = Inr rows"
    and "Columns rows = Inr cols"
    and "pending rows = pre @ rest"
    and "\<forall>r\<in>set pre. snd (accRow s (query\<lparr>OrderedColumns := cols\<rparr>) r) = Ret None"
  shows
    "list_all (\<lambda>r. \<exists>m flds tgs.
        fst (accRow s (query\<lparr>OrderedColumns := cols\<rparr>) r) = [AddFields m flds tgs]) pre \<and>
     (\<exists>later. fst (gatherServer s sql_Open server query) =
        [SqlOpen server, ConnQuery (Script query)]
          @ concat (map (\<lambda>r. fst (accRow s (query\<lparr>OrderedColumns := cols\<rparr>) r)) pre)
          @ later @ [RowsClose, ConnClose server]) \<and>
     (rest = [] \<longrightarrow>
        gatherServer s sql_Open server query =
          ([SqlOpen server, ConnQuery (Script query)]
             @ concat (map (\<lambda>r. fst (accRow s (query\<lparr>OrderedColumns := cols\<rparr>) r)) pre)
             @ [RowsClose, ConnClose server],
           Ret (RowsErr rows))) \<and>
     (\<forall>bad post. rest = bad # post \<and>
          snd (accRow s (query\<lparr>OrderedColumns := cols\<rparr>) bad) \<noteq> Ret None \<longrightarrow>
        gatherServer s sql_Open server query =
          ([SqlOpen server, ConnQuery (Script query)]
             @ concat (map (\<lambda>r. fst (accRow s (query\<lparr>OrderedColumns := cols\<rparr>) r)) pre)
             @ [RowsClose, ConnClose server],
           snd (accRow s (query\<lparr>OrderedColumns := cols\<rparr>) bad)))"
proof -
  let ?q = "query\<lparr>OrderedColumns := cols\<rparr>"
  let ?recs = "concat (map (\<lambda>r. fst (accRow s ?q r)) pre)"
  have loop: "rows_loop s ?q (pre @ rest) (RowsErr rows)
      = (?recs @ fst (rows_loop s ?q rest (RowsErr rows)),
         snd (rows_loop s ?q rest (RowsErr rows)))"
    using assms(5) by (rule rows_loop_prefix)
  have run: "gatherServer s sql_Open server query =
      ([SqlOpen server, ConnQuery (Script query)] @ ?recs
         @ fst (rows_loop s ?q rest (RowsErr rows)) @ [RowsClose, ConnClose server],
       snd (rows_loop s ?q rest (RowsErr rows)))"
    using assms(1-4) loop by (simp add: gatherServer_def Let_def)
  have each: "list_all (\<lambda>r. \<exists>m flds tgs. fst (accRow s ?q r) = [AddFields m flds tgs]) pre"
    using assms(5) accRow_success_record by (simp add: list_all_iff)
  have general: "\<exists>later. fst (gatherServer s sql_Open server query) =
      [SqlOpen server, ConnQuery (Script query)] @ ?recs @ later @ [RowsClose, ConnClose server]"
    using run by simp
  have ended: "rest = [] \<longrightarrow> gatherServer s sql_Open server query =
      ([SqlOpen server, ConnQuery (Script query)] @ ?recs @ [RowsClose, ConnClose server],
       Ret (RowsErr rows))"
    using run by simp
  have failed: "\<forall>bad post. rest = bad # post \<and> snd (accRow s ?q bad) \<noteq> Ret None \<longrightarrow>
      gatherServer s sql_Open server query =
        ([SqlOpen server, ConnQuery (Script query)] @ ?recs @ [RowsClose, ConnClose server],
         snd (accRow s ?q bad))"
    using run by (auto simp: rows_loop_fail)
  from each general ended failed show ?thesis by (intro conjI)
qed

theorem rows_before_failure_reported_witness:
  "gatherServer (initQueries cfg_host)
       (\<lambda>sv. Inr (conn_serving mhv [row_h1, row_h2] (Some (Err ''connection lost''))))
       ''srvA'' cpu_query
     = ([SqlOpen ''srvA'', ConnQuery sqlServerCpuV2,
         AddFields ''m'' [''value'' \<mapsto> VInt 42] [''host'' \<mapsto> ''h1''],
         AddFields ''m'' [''value'' \<mapsto> VInt 7] [''host'' \<mapsto> ''h2''],
         RowsClose, ConnClose ''srvA''],
        Ret (Some (Err ''connection lost''))) \<and>
   gatherServer (initQueries cfg_host)
       (\<lambda>sv. Inr (conn_serving mhv [row_h1, row_h2, Inl (Err ''scan failed''), row_h1] None))
       ''srvA'' cpu_query
     = ([SqlOpen ''srvA'', ConnQuery sqlServerCpuV2,
         AddFields ''m'' [''value'' \<mapsto> VInt 42] [''host'' \<mapsto> ''h1''],
         AddFields ''m'' [''value'' \<mapsto> VInt 7] [''host'' \<mapsto> ''h2''],
         RowsClose, ConnClose ''srvA''],
        Ret (Some (Err ''scan failed''))) \<and>
   gatherServer (initQueries cfg_host)
       (\<lambda>sv. Inr (conn_serving mhv [row_h1, row_bad_tag, row_h2] None)) ''srvA'' cpu_query
     = ([SqlOpen ''srvA'', ConnQuery sqlServerCpuV2,
         AddFields ''m'' [''value'' \<mapsto> VInt 42] [''host'' \<mapsto> ''h1''],
         RowsClose, ConnClose ''srvA''],
        Panic)"
proof -
  let ?s = "initQueries cfg_host"
  let ?q = "cpu_query\<lparr>OrderedColumns := mhv\<rparr>"
  have h1: "accRow ?s ?q row_h1
      = ([AddFields ''m'' [''value'' \<mapsto> VInt 42] [''host'' \<mapsto> ''h1'']], Ret None)"
    by (simp add: eval_unit tags_cfg_host)
  have h2: "accRow ?s ?q row_h2
      = ([AddFields ''m'' [''value'' \<mapsto> VInt 7] [''host'' \<mapsto> ''h2'']], Ret None)"
    by (simp add: eval_unit tags_cfg_host)
  have bad1: "accRow ?s ?q (Inl (Err ''scan failed'')) = ([], Ret (Some (Err ''scan failed'')))"
    by (simp add: eval_unit)
  have bad2: "accRow ?s ?q row_bad_tag = ([], Panic)"
    by (simp add: eval_unit tags_cfg_host)
  have a: "\<forall>r\<in>set [row_h1, row_h2]. snd (accRow ?s ?q r) = Ret None"
    by (simp add: h1 h2)
  have b: "\<forall>r\<in>set [row_h1]. snd (accRow ?s ?q r) = Ret None"
    by (simp add: h1)
  have sc: "Script cpu_query = sqlServerCpuV2" by (simp add: cpu_query_def)
  from rows_before_failure_reported
    [of "\<lambda>sv. Inr (conn_serving mhv [row_h1, row_h2] (Some (Err ''connection lost'')))"
       "''srvA''" "conn_serving mhv [row_h1, row_h2] (Some (Err ''connection lost''))"
       cpu_query "Rows (Inr mhv) [row_h1, row_h2] (Some (Err ''connection lost''))"
       mhv "[row_h1, row_h2]" "[]" ?s, OF _ _ _ _ a]
    rows_before_failure_reported
    [of "\<lambda>sv. Inr (conn_serving mhv [row_h1, row_h2, Inl (Err ''scan failed''), row_h1] None)"
       "''srvA''" "conn_serving mhv [row_h1, row_h2, Inl (Err ''scan failed''), row_h1] None"
       cpu_query "Rows (Inr mhv) [row_h1, row_h2, Inl (Err ''scan failed''), row_h1] None"
       mhv "[row_h1, row_h2]" "[Inl (Err ''scan failed''), row_h1]" ?s, OF _ _ _ _ a]
    rows_before_failure_reported
    [of "\<lambda>sv. Inr (conn_serving mhv [row_h1, row_bad_tag, row_h2] None)"
       "''srvA''" "conn_serving mhv [row_h1, row_bad_tag, row_h2] None"
       cpu_query "Rows (Inr mhv) [row_h1, row_bad_tag, row_h2] None"
       mhv "[row_h1]" "[row_bad_tag, row_h2]" ?s, OF _ _ _ _ b]
  show ?thesis
    by (simp add: conn_serving_def h1 h2 bad1 bad2 sc)
qed

section \<open>Facts about the gather cycle\<close>

declare run_units.simps(2) [simp del]

lemma run_units_step:
  "gatherServer s (opn i) serv query = (evs, Ret err) \<Longrightarrow>
   run_units s opn i ((serv, query) # us)
     = (evs @ [AddError err] @ fst (run_units s opn (Suc i) us),
        snd (run_units s opn (Suc i) us))"
  by (simp add: run_units.simps(2) Let_def)

lemma run_units_panic:
  "gatherServer s (opn i) serv query = (evs, Panic) \<Longrightarrow>
   run_units s opn i ((serv, query) # us) = (evs, Panic)"
  by (simp add: run_units.simps(2))

lemma run_units_outcome:
  "snd (run_units s opn i us) = Ret None \<or> snd (run_units s opn i us) = Panic"
proof (induction us arbitrary: i)
  case Nil
  show ?case by simp
next
  case (Cons u us)
  obtain serv query where u: "u = (serv, query)" by (cases u)
  obtain evs r where g: "gatherServer s (opn i) serv query = (evs, r)"
    by (cases "gatherServer s (opn i) serv query")
  show ?case
  proof (cases r)
    case (Ret err)
    with g Cons.IH [of "Suc i"] show ?thesis by (simp add: u run_units_step)
  next
    case Panic
    with g show ?thesis by (simp add: u run_units_panic)
  qed
qed

lemma run_units_no_panic:
  "\<forall>k<length us. snd (gatherServer s (opn (i + k)) (fst (us ! k)) (snd (us ! k))) \<noteq> Panic \<Longrightarrow>
   snd (run_units s opn i us) = Ret None"
proof (induction us arbitrary: i)
  case Nil
  show ?case by simp
next
  case (Cons u us)
  obtain serv query where u: "u = (serv, query)" by (cases u)
  obtain evs r where g: "gatherServer s (opn i) serv query = (evs, r)"
    by (cases "gatherServer s (opn i) serv query")
  from Cons.prems [rule_format, of 0] g have "r \<noteq> Panic" by (simp add: u)
  then obtain err where r: "r = Ret err" by (cases r) auto
  have "\<forall>k<length us.
      snd (gatherServer s (opn (Suc i + k)) (fst (us ! k)) (snd (us ! k))) \<noteq> Panic"
  proof (intro allI impI)
    fix k assume "k < length us"
    with Cons.prems [rule_format, of "Suc k"] show
      "snd (gatherServer s (opn (Suc i + k)) (fst (us ! k)) (snd (us ! k))) \<noteq> Panic"
      by simp
  qed
  from Cons.IH [OF this] g r show ?case by (simp add: u run_units_step)
qed

subsection \<open>The errors of a cycle\<close>

lemma added_errors_goroutine:
  "added_errors (fst (goroutine s sql_Open serv query))
     = returned (snd (gatherServer s sql_Open serv query))"
proof (cases "gatherServer s sql_Open serv query")
  case (Pair evs r)
  have "added_errors evs = []"
    using gatherServer_no_AddError [of s sql_Open serv query] Pair by simp
  with Pair show ?thesis
    by (cases r) (simp_all add: goroutine_def added_errors_append)
qed

lemma added_errors_shuffles:
  "zs \<in> shuffles xs ys \<Longrightarrow>
   mset (added_errors zs) = mset (added_errors xs) + mset (added_errors ys)"
proof (induction zs arbitrary: xs ys)
  case Nil
  then show ?case by simp
next
  case (Cons z zs)
  have split: "added_errors (v # vs) = added_errors [v] @ added_errors vs" for v vs
    using added_errors_append [of "[v]" vs] by simp
  from Cons.prems consider
      (left) "xs \<noteq> []" "hd xs = z" "zs \<in> shuffles (tl xs) ys"
    | (right) "ys \<noteq> []" "hd ys = z" "zs \<in> shuffles xs (tl ys)"
    by (auto simp: Cons_in_shuffles_iff)
  then show ?case
  proof cases
    case left
    then obtain xs' where xs: "xs = z # xs'" by (cases xs) auto
    from Cons.IH [OF left(3)] show ?thesis
      by (simp add: xs split [of z zs] split [of z xs'])
  next
    case right
    then obtain ys' where ys: "ys = z # ys'" by (cases ys) auto
    from Cons.IH [OF right(3)] show ?thesis
      by (simp add: ys split [of z zs] split [of z ys'])
  qed
qed

lemma added_errors_interleavings:
  "tr \<in> interleavings ts \<Longrightarrow>
   mset (added_errors tr) = mset (concat (map added_errors ts))"
proof (induction ts arbitrary: tr)
  case Nil
  then show ?case by simp
next
  case (Cons t ts)
  then obtain tr' where "tr' \<in> interleavings ts" and "tr \<in> shuffles t tr'" by auto
  with Cons.IH [of tr'] added_errors_shuffles [of tr t tr'] show ?case by simp
qed

lemma added_errors_goroutines:
  "map (added_errors \<circ> fst) (goroutines s e) = map returned (unit_results s e)"
  by (simp add: goroutines_def unit_results_def added_errors_goroutine)

lemma append_in_shuffles: "xs @ ys \<in> shuffles xs ys"
  by (induction xs) (simp_all add: Cons_in_shuffles_leftI)

lemma concat_in_interleavings: "concat ts \<in> interleavings ts"
  by (induction ts) (auto intro: append_in_shuffles)

lemma run_units_goroutines:
  "\<exists>rest. fst (run_units s opn i us) @ rest =
       concat (map (\<lambda>ku. fst (goroutine s (opn (fst ku)) (fst (snd ku)) (snd (snd ku))))
                 (zip [i..<i + length us] us)) \<and>
     (snd (run_units s opn i us) = Ret None \<longrightarrow> rest = [])"
proof (induction us arbitrary: i)
  case Nil
  show ?case by simp
next
  case (Cons u us)
  obtain serv query where u: "u = (serv, query)" by (cases u)
  obtain evs r where g: "gatherServer s (opn i) serv query = (evs, r)"
    by (cases "gatherServer s (opn i) serv query")
  have up: "[i..<i + length (u # us)] = i # [Suc i..<Suc i + length us]"
    using upt_conv_Cons [of i "i + length (u # us)"] by simp
  show ?case
  proof (cases r)
    case Panic
    with g show ?thesis
      unfolding up by (simp add: u run_units_panic goroutine_def)
  next
    case (Ret err)
    from Cons.IH [of "Suc i"] obtain rest where
      rest: "fst (run_units s opn (Suc i) us) @ rest =
         concat (map (\<lambda>ku. fst (goroutine s (opn (fst ku)) (fst (snd ku)) (snd (snd ku))))
                   (zip [Suc i..<Suc i + length us] us))"
      and fin: "snd (run_units s opn (Suc i) us) = Ret None \<longrightarrow> rest = []"
      by blast
    have "fst (run_units s opn i (u # us)) @ rest =
        concat (map (\<lambda>ku. fst (goroutine s (opn (fst ku)) (fst (snd ku)) (snd (snd ku))))
                  (zip [i..<i + length (u # us)] (u # us)))"
      unfolding up using g Ret rest by (simp add: u run_units_step goroutine_def)
    moreover have "snd (run_units s opn i (u # us)) = Ret None \<longrightarrow> rest = []"
      using g Ret fin by (simp add: u run_units_step)
    ultimately show ?thesis by blast
  qed
qed

lemma Gather_trace:
  "\<exists>rest. fst (snd (Gather s0 e)) @ rest = concat (map fst (goroutines (fst (Gather s0 e)) e)) \<and>
     (snd (snd (Gather s0 e)) = Ret None \<longrightarrow> rest = [])"
  using run_units_goroutines [of "fst (Gather s0 e)" "sqlOpen e" 0 "units_of (fst (Gather s0 e))"]
  by (simp add: Gather_def Let_def goroutines_def comp_def)

text \<open>
  Claim C3, amended. The goroutine of a unit calls \<^verbatim>\<open>acc.AddError\<close> exactly once when
  its \<^verbatim>\<open>gatherServer\<close> returns, with the very value returned: the error of a failing
  unit, unchanged and with neither server nor query name added, and \<^verbatim>\<open>nil\<close> for a
  unit that succeeded; it makes no such call when \<^verbatim>\<open>gatherServer\<close> does not return.
  So under every interleaving of the goroutines, the errors collected over a cycle whose
  goroutines all run to their end are exactly the values the units returned, one for each
  unit and in no particular order. The cycle of \<open>Gather\<close> above is one of these
  interleavings when it returns, and when it does not, what it has collected so far is
  part of what the units returned.
\<close>

theorem each_unit_adds_what_it_returned:
  "added_errors (fst (goroutine s sql_Open serv query))
     = returned (snd (gatherServer s sql_Open serv query)) \<and>
   (tr \<in> cycle_traces s e \<longrightarrow>
      mset (added_errors tr) = mset (concat (map returned (unit_results s e)))) \<and>
   mset (added_errors (fst (snd (Gather s0 e))))
     \<subseteq># mset (concat (map returned (unit_results (fst (Gather s0 e)) e))) \<and>
   (snd (snd (Gather s0 e)) = Ret None \<longrightarrow>
      fst (snd (Gather s0 e)) \<in> cycle_traces (fst (Gather s0 e)) e)"
proof (intro conjI impI)
  show "added_errors (fst (goroutine s sql_Open serv query))
     = returned (snd (gatherServer s sql_Open serv query))"
    by (rule added_errors_goroutine)
next
  assume "tr \<in> cycle_traces s e"
  then show "mset (added_errors tr) = mset (concat (map returned (unit_results s e)))"
    using added_errors_interleavings [of tr "map fst (goroutines s e)"]
    by (simp add: cycle_traces_def added_errors_goroutines)
next
  let ?s = "fst (Gather s0 e)"
  from Gather_trace [of s0 e] obtain rest where
    rest: "fst (snd (Gather s0 e)) @ rest = concat (map fst (goroutines ?s e))" by blast
  have "concat (map fst (goroutines ?s e)) \<in> cycle_traces ?s e"
    by (simp add: cycle_traces_def concat_in_interleavings)
  then have "mset (added_errors (fst (snd (Gather s0 e)) @ rest))
      = mset (concat (map returned (unit_results ?s e)))"
    using added_errors_interleavings [of _ "map fst (goroutines ?s e)"]
    by (simp add: rest cycle_traces_def added_errors_goroutines)
  then show "mset (added_errors (fst (snd (Gather s0 e))))
      \<subseteq># mset (concat (map returned (unit_results ?s e)))"
    by (simp add: added_errors_append flip: mset_append)
       (metis mset_subset_eq_add_left mset_append)
next
  assume "snd (snd (Gather s0 e)) = Ret None"
  with Gather_trace [of s0 e]
  have "fst (snd (Gather s0 e)) = concat (map fst (goroutines (fst (Gather s0 e)) e))"
    by auto
  then show "fst (snd (Gather s0 e)) \<in> cycle_traces (fst (Gather s0 e)) e"
    by (simp add: cycle_traces_def concat_in_interleavings)
qed

lemma queries_cfg_host: "queries (initQueries cfg_host) = [(''Cpu'', cpu_query)]"
  by (simp add: initQueries_def Let_def cfg_host_def cfg0_def initIncludeQueries_def
      initExcludeQueries_def initTags_def filter_q_def put_query_def v2_entries_def cpu_query_def)

lemma servers_initQueries: "Servers (initQueries s) = Servers s"
  by (simp add: initQueries_def Let_def)

lemma units_cfg_host:
  "units_of (initQueries cfg_host) = [(''srvA'', cpu_query), (''srvB'', cpu_query)]"
  by (simp add: units_of_def queries_cfg_host servers_initQueries)
     (simp add: cfg_host_def cfg0_def)

lemma Gather_cfg_host:
  "Gather cfg_host e =
     (initQueries cfg_host,
      run_units (initQueries cfg_host) (sqlOpen e) 0 [(''srvA'', cpu_query), (''srvB'', cpu_query)])"
proof -
  have "\<not> isInitialized cfg_host" "\<not> LocalInstancesAutoDiscovery (initQueries cfg_host)"
    by (simp_all add: cfg_host_def cfg0_def initQueries_def Let_def initTags_def
        initExcludeQueries_def initIncludeQueries_def)
  moreover have "units_of (initQueries cfg_host) = [(''srvA'', cpu_query), (''srvB'', cpu_query)]"
    by (simp add: units_of_def queries_cfg_host servers_initQueries)
       (simp add: cfg_host_def cfg0_def)
  ultimately show ?thesis by (simp add: Gather_def Let_def)
qed

text \<open>
  Claim C3 as written also has every collected error tagged with the server and the query
  name of its unit. Two units on different servers that the driver refuses with the same
  error leave two equal entries, which name neither server nor query.
\<close>

theorem errors_carry_no_unit_tag:
  "map fst (units_of (fst (Gather cfg_host env_refusing))) = [''srvA'', ''srvB''] \<and>
   snd (Gather cfg_host env_refusing)
     = ([AddError (Some (Err ''login failed'')), AddError (Some (Err ''login failed''))],
        Ret None)"
  by (simp add: Gather_cfg_host env_refusing_def run_units.simps(2) gatherServer_def
      units_of_def queries_cfg_host servers_initQueries)
     (simp add: cfg_host_def cfg0_def)

theorem each_unit_adds_what_it_returned_witness:
  "[SqlOpen ''srvB'', ConnQuery sqlServerCpuV2, AddError (Some (Err ''login failed'')),
    AddFields ''m'' [''value'' \<mapsto> VInt 42] [''host'' \<mapsto> ''h1''],
    RowsClose, ConnClose ''srvB'', AddError None]
     \<in> cycle_traces (initQueries cfg_host) env_mixed \<and>
   unit_results (initQueries cfg_host) env_mixed = [Ret (Some (Err ''login failed'')), Ret None] \<and>
   added_errors (fst (goroutine (initQueries cfg_host) (sqlOpen env_mixed 0) ''srvA'' cpu_query))
     = [Some (Err ''login failed'')] \<and>
   snd (snd (Gather cfg_host env_mixed)) = Ret None \<and>
   fst (snd (Gather cfg_host env_mixed)) \<in> cycle_traces (initQueries cfg_host) env_mixed \<and>
   unit_results (initQueries cfg_host) env_refused_then_bad_tag
     = [Ret (Some (Err ''login failed'')), Panic] \<and>
   added_errors (fst (snd (Gather cfg_host env_refused_then_bad_tag)))
     = [Some (Err ''login failed'')]"
proof -
  let ?s = "initQueries cfg_host"
  let ?tr = "[SqlOpen ''srvB'', ConnQuery sqlServerCpuV2, AddError (Some (Err ''login failed'')),
    AddFields ''m'' [''value'' \<mapsto> VInt 42] [''host'' \<mapsto> ''h1''],
    RowsClose, ConnClose ''srvB'', AddError None]"
  have gs: "map fst (goroutines ?s env_mixed) =
      [[AddError (Some (Err ''login failed''))],
       [SqlOpen ''srvB'', ConnQuery sqlServerCpuV2,
        AddFields ''m'' [''value'' \<mapsto> VInt 42] [''host'' \<mapsto> ''h1''],
        RowsClose, ConnClose ''srvB'', AddError None]]"
    by (simp add: goroutines_def units_cfg_host goroutine_def env_mixed_def eval_unit
        tags_cfg_host)
  have mem: "?tr \<in> cycle_traces ?s env_mixed"
    by (simp add: cycle_traces_def gs Cons_in_shuffles_iff)
  have res: "unit_results ?s env_mixed = [Ret (Some (Err ''login failed'')), Ret None]"
    by (simp add: unit_results_def units_cfg_host env_mixed_def eval_unit tags_cfg_host)
  have res2: "unit_results ?s env_refused_then_bad_tag
      = [Ret (Some (Err ''login failed'')), Panic]"
    by (simp add: unit_results_def units_cfg_host env_refused_then_bad_tag_def eval_unit
        tags_cfg_host)
  have ret: "snd (snd (Gather cfg_host env_mixed)) = Ret None"
    by (simp add: Gather_cfg_host env_mixed_def run_units.simps(2) eval_unit tags_cfg_host)
  have fstG: "fst (Gather cfg_host e) = ?s" for e by (simp add: Gather_cfg_host)
  have g0: "gatherServer ?s (sqlOpen env_mixed 0) ''srvA'' cpu_query
      = ([], Ret (Some (Err ''login failed'')))"
    by (simp add: env_mixed_def gatherServer_def)
  have crash: "added_errors (fst (snd (Gather cfg_host env_refused_then_bad_tag)))
      = [Some (Err ''login failed'')]"
    by (simp add: Gather_cfg_host env_refused_then_bad_tag_def run_units.simps(2) eval_unit
        tags_cfg_host)
  from each_unit_adds_what_it_returned
    [where s = ?s and sql_Open = "sqlOpen env_mixed 0" and serv = "''srvA''"
       and query = cpu_query and tr = ?tr and e = env_mixed and ?s0.0 = cfg_host]
    each_unit_adds_what_it_returned
    [where s = ?s and sql_Open = "sqlOpen env_mixed 0" and serv = "''srvA''"
       and query = cpu_query and tr = ?tr and e = env_refused_then_bad_tag
       and ?s0.0 = cfg_host]
    mem res res2 ret crash
  show ?thesis by (simp add: fstG g0)
qed

subsection \<open>A cycle that does not return\<close>

text \<open>
  Claim C5 says that \<^verbatim>\<open>Gather\<close> completes and returns success whatever the units do.
  With \<open>host\<close> configured as a tag key and a row whose \<open>host\<close> column holds an
  integer, the type assertion in \<^verbatim>\<open>accRow\<close> panics in the unit's goroutine; the
  deferred calls run and the cycle ends without returning.
\<close>
theorem Gather_does_not_return:
  "TagKeys cfg_host = [''host''] \<and>
   snd (Gather cfg_host env_bad_tag)
     = ([SqlOpen ''srvA'', ConnQuery sqlServerCpuV2, RowsClose, ConnClose ''srvA''], Panic)"
  by (simp add: Gather_cfg_host env_bad_tag_def run_units.simps(2) eval_unit tags_cfg_host)
     (simp add: cfg_host_def cfg0_def)

text \<open>When no unit panics the cycle returns \<^verbatim>\<open>nil\<close>, however many units fail.\<close>

lemma Gather_returns_nil:
  assumes "\<forall>k<length (units_of (fst (Gather s e))).
      snd (gatherServer (fst (Gather s e)) (sqlOpen e k)
            (fst (units_of (fst (Gather s e)) ! k)) (snd (units_of (fst (Gather s e)) ! k)))
        \<noteq> Panic"
  shows "snd (snd (Gather s e)) = Ret None"
  using assms run_units_no_panic [of "units_of (fst (Gather s e))" "fst (Gather s e)" "sqlOpen e" 0]
  by (simp add: Gather_def Let_def)

lemma accRow_panics:
  assumes len: "length vs = length cols"
    and i: "i < length cols" and fin: "cols ! i \<notin> set (drop (Suc i) cols)"
    and cls: "cols ! i = ''measurement'' \<or> cols ! i \<in> tags s"
    and bad: "as_string (vs ! i) = None"
  shows "accRow s (query\<lparr>OrderedColumns := cols\<rparr>) (Inr vs) = ([], Panic)"
proof -
  let ?cm = "fst (fold bind_column cols ([], []))"
  have "(cols ! i, i) \<in> set ?cm"
    using columnMap_final [OF i fin] by (simp add: columnMap_mem)
  with cls bad have "classify (tags s) vs ?cm ([], Map.empty, Map.empty) = Panic"
    unfolding classify_Panic_iff by blast
  with len show ?thesis by (simp add: accRow_scanned)
qed

subsection \<open>Rows that fail to decode\<close>

text \<open>
  Claim C2 as written has \<^verbatim>\<open>accRow\<close> fail on a row without a \<open>measurement\<close> column.
  It does not: the row is decoded into a record whose measurement name is empty.
\<close>
theorem row_without_measurement_is_decoded:
  "''measurement'' \<notin> set [''host'', ''value''] \<and>
   accRow (initQueries cfg_host) (cpu_query\<lparr>OrderedColumns := [''host'', ''value'']\<rparr>)
       (Inr [VString ''h1'', VInt 42])
     = ([AddFields [] [''value'' \<mapsto> VInt 42] [''host'' \<mapsto> ''h1'']], Ret None)"
  by (simp add: accRow_def Let_def bind_column_def Scan_def tags_cfg_host)

text \<open>
  Claim C2, amended. \<^verbatim>\<open>accRow\<close> returns an error when \<^verbatim>\<open>row.Scan\<close> fails; it then
  reports no record, the row loop of the unit stops with that error, and the error of the
  unit is handed to \<^verbatim>\<open>acc.AddError\<close> while the units after it still run. A row without
  a \<open>measurement\<close> column whose tag-key columns hold text is decoded into one record
  with the empty measurement name. A row whose \<open>measurement\<close> column or tag-key column
  does not hold text yields no record.
\<close>
theorem accRow_failures:
  "accRow s query (Inl err) = ([], Ret (Some err)) \<and>
   rows_loop s query (Inl err # rs) final = ([], Ret (Some err)) \<and>
   (gatherServer s (opn k) serv query = (evs, Ret (Some err)) \<longrightarrow>
      run_units s opn k ((serv, query) # us)
        = (evs @ [AddError (Some err)] @ fst (run_units s opn (Suc k) us),
           snd (run_units s opn (Suc k) us))) \<and>
   (length vs = length cols \<and> ''measurement'' \<notin> set cols \<and>
    (\<forall>i<length cols. cols ! i \<notin> set (drop (Suc i) cols) \<longrightarrow> cols ! i \<in> tags s \<longrightarrow>
        as_string (vs ! i) \<noteq> None) \<longrightarrow>
      (\<exists>flds tgs. accRow s (query\<lparr>OrderedColumns := cols\<rparr>) (Inr vs)
                     = ([AddFields [] flds tgs], Ret None))) \<and>
   (length vs = length cols \<and> i < length cols \<and> cols ! i \<notin> set (drop (Suc i) cols) \<and>
    (cols ! i = ''measurement'' \<or> cols ! i \<in> tags s) \<and> as_string (vs ! i) = None \<longrightarrow>
      filter is_record (fst (accRow s (query\<lparr>OrderedColumns := cols\<rparr>) (Inr vs))) = [])"
proof (intro conjI impI)
  show a: "accRow s query (Inl err) = ([], Ret (Some err))" by (rule accRow_scan_error)
  show "rows_loop s query (Inl err # rs) final = ([], Ret (Some err))"
    using rows_loop_fail [of s query "Inl err" rs final] by (simp add: a)
next
  assume "gatherServer s (opn k) serv query = (evs, Ret (Some err))"
  then show "run_units s opn k ((serv, query) # us)
        = (evs @ [AddError (Some err)] @ fst (run_units s opn (Suc k) us),
           snd (run_units s opn (Suc k) us))"
    by (rule run_units_step)
next
  assume h: "length vs = length cols \<and> ''measurement'' \<notin> set cols \<and>
    (\<forall>i<length cols. cols ! i \<notin> set (drop (Suc i) cols) \<longrightarrow> cols ! i \<in> tags s \<longrightarrow>
        as_string (vs ! i) \<noteq> None)"
  then have len: "length vs = length cols" and absent: "''measurement'' \<notin> set cols" by simp_all
  have textual: "\<forall>i<length cols. cols ! i \<notin> set (drop (Suc i) cols) \<longrightarrow>
      (cols ! i = ''measurement'' \<or> cols ! i \<in> tags s) \<longrightarrow> as_string (vs ! i) \<noteq> None"
    using h by (metis nth_mem)
  from accRow_decodes [OF len textual, of query] absent
  show "\<exists>flds tgs. accRow s (query\<lparr>OrderedColumns := cols\<rparr>) (Inr vs)
                     = ([AddFields [] flds tgs], Ret None)"
    by (elim exE conjE) (intro exI; simp)
next
  assume h: "length vs = length cols \<and> i < length cols \<and> cols ! i \<notin> set (drop (Suc i) cols) \<and>
    (cols ! i = ''measurement'' \<or> cols ! i \<in> tags s) \<and> as_string (vs ! i) = None"
  then have "accRow s (query\<lparr>OrderedColumns := cols\<rparr>) (Inr vs) = ([], Panic)"
    using accRow_panics [of vs cols i s query] by simp
  then show "filter is_record (fst (accRow s (query\<lparr>OrderedColumns := cols\<rparr>) (Inr vs))) = []"
    by simp
qed

theorem accRow_failures_witness:
  "accRow (initQueries cfg_host) cpu_query (Inl (Err ''scan failed''))
     = ([], Ret (Some (Err ''scan failed''))) \<and>
   snd (Gather cfg_host env_scan_fails)
     = ([SqlOpen ''srvA'', ConnQuery sqlServerCpuV2,
         AddFields ''m'' [''value'' \<mapsto> VInt 42] [''host'' \<mapsto> ''h1''],
         RowsClose, ConnClose ''srvA'', AddError (Some (Err ''scan failed'')),
         SqlOpen ''srvB'', ConnQuery sqlServerCpuV2,
         AddFields ''m'' [''value'' \<mapsto> VInt 7] [''host'' \<mapsto> ''h2''],
         RowsClose, ConnClose ''srvB'', AddError None],
        Ret None) \<and>
   accRow (initQueries cfg_host) (cpu_query\<lparr>OrderedColumns := [''host'', ''value'']\<rparr>)
       (Inr [VString ''h1'', VInt 42])
     = ([AddFields [] [''value'' \<mapsto> VInt 42] [''host'' \<mapsto> ''h1'']], Ret None) \<and>
   fst (accRow (initQueries cfg_host) (cpu_query\<lparr>OrderedColumns := mhv\<rparr>) row_bad_tag) = []"
  using
    accRow_failures [where s = "initQueries cfg_host" and query = cpu_query
      and err = "Err ''scan failed''" and rs = "[]" and final = None
      and opn = "sqlOpen env_scan_fails" and k = 0 and serv = "''srvA''"
      and evs = "[SqlOpen ''srvA'', ConnQuery sqlServerCpuV2,
         AddFields ''m'' [''value'' \<mapsto> VInt 42] [''host'' \<mapsto> ''h1''],
         RowsClose, ConnClose ''srvA'']"
      and us = "[(''srvB'', cpu_query)]"
      and vs = "[VString ''h1'', VInt 42]" and cols = "[''host'', ''value'']" and i = 0]
    accRow_failures [where s = "initQueries cfg_host" and query = cpu_query
      and err = "Err ''scan failed''" and rs = "[]" and final = None
      and opn = "sqlOpen env_scan_fails" and k = 0 and serv = "''srvA''"
      and evs = "[]" and us = "[]"
      and vs = "[VString ''m'', VInt 5, VInt 7]" and cols = mhv and i = 1]
  by (simp add: Gather_cfg_host env_scan_fails_def run_units.simps(2) eval_unit tags_cfg_host)


end
